theory Spec2Isabelle
  imports Complex_Main "HOL-Library.Multiset" "HOL-Library.AList" "HOL-Library.Sublist"
begin

section \<open>The low-level API notebook: resilient distributed collections\<close>

text \<open>
  The notebooks are straight-line calls on the engine's collections. A collection is
  modelled by what \<^verbatim>\<open>collect()\<close> observes of it: its partitions, each a list of
  elements in order. The element-wise operators act inside every partition; the lambdas
  are the ones written in the notebook cells.
\<close>

text \<open>
  The exceptions of the Python runtime and of the engine that the notebooks can meet.
  \<open>UnknownRDD\<close> is not one of them: it marks a number that names no collection of the
  context, which Python cannot write, since a method is called on an existing object.
\<close>

datatype error =
    AssertionError
  | TypeError
  | ValueError
  | IllegalArgumentException
  | AnalysisException
  | SparkException
  | UnknownRDD

type_synonym 'a rdd = "'a list list"

definition collect :: "'a rdd \<Rightarrow> 'a list" where
  "collect r = concat r"

definition rdd_take :: "nat \<Rightarrow> 'a rdd \<Rightarrow> 'a list" where
  "rdd_take n r = take n (collect r)"

definition rdd_map :: "('a \<Rightarrow> 'b) \<Rightarrow> 'a rdd \<Rightarrow> 'b rdd" where
  "rdd_map f r = map (map f) r"

definition rdd_flatMap :: "('a \<Rightarrow> 'b list) \<Rightarrow> 'a rdd \<Rightarrow> 'b rdd" where
  "rdd_flatMap f r = map (\<lambda>p. concat (map f p)) r"



subsection \<open>reduceByKey\<close>

text \<open>
  \<^verbatim>\<open>reduceByKey(func)\<close> is \<^verbatim>\<open>combineByKey(lambda x: x, func, func)\<close>: every
  partition is first merged into a dictionary (insertion ordered, here an association
  list), \<^verbatim>\<open>d[k] = comb(d[k], v) if k in d else creator(v)\<close>; the merged pairs are
  shuffled, so that reduce partition \<open>p\<close> of \<open>n\<close> receives the pairs whose key hashes
  to \<open>p\<close> modulo \<open>n\<close>; each reduce partition is merged the same way. Without a
  \<^verbatim>\<open>numPartitions\<close> argument \<open>n\<close> is the number of partitions of the collection (the
  notebook sets no default parallelism). The order in which a reduce partition receives
  its pairs is not fixed by the engine: it is the parameter \<open>arrive\<close>, a rearrangement
  of the pairs. \<open>h\<close> is the partition function, the engine's hash of a key.
\<close>

definition merge_into ::
  "('v \<Rightarrow> 'c) \<Rightarrow> ('c \<Rightarrow> 'v \<Rightarrow> 'c) \<Rightarrow> ('k \<times> 'c) list \<Rightarrow> 'k \<times> 'v \<Rightarrow> ('k \<times> 'c) list" where
  "merge_into creator comb d kv =
     AList.update (fst kv)
       (case map_of d (fst kv) of None \<Rightarrow> creator (snd kv) | Some c \<Rightarrow> comb c (snd kv)) d"

definition merge_items ::
  "('v \<Rightarrow> 'c) \<Rightarrow> ('c \<Rightarrow> 'v \<Rightarrow> 'c) \<Rightarrow> ('k \<times> 'v) list \<Rightarrow> ('k \<times> 'c) list" where
  "merge_items creator comb xs = foldl (merge_into creator comb) [] xs"

definition bucket :: "nat \<Rightarrow> ('k \<Rightarrow> int) \<Rightarrow> 'k \<Rightarrow> nat" where
  "bucket n h k = nat (h k mod int n)"

definition partitionBy ::
  "nat \<Rightarrow> ('k \<Rightarrow> int) \<Rightarrow> (('k \<times> 'c) list \<Rightarrow> ('k \<times> 'c) list) \<Rightarrow> ('k \<times> 'c) rdd \<Rightarrow> ('k \<times> 'c) rdd" where
  "partitionBy n h arrive r =
     map (\<lambda>p. arrive (filter (\<lambda>kv. bucket n h (fst kv) = p) (collect r))) [0..<n]"

definition defaultReducePartitions :: "'a rdd \<Rightarrow> nat" where
  "defaultReducePartitions r = length r"

definition combineByKey ::
  "('v \<Rightarrow> 'c) \<Rightarrow> ('c \<Rightarrow> 'v \<Rightarrow> 'c) \<Rightarrow> ('c \<Rightarrow> 'c \<Rightarrow> 'c) \<Rightarrow> nat option \<Rightarrow> ('k \<Rightarrow> int) \<Rightarrow>
   (('k \<times> 'c) list \<Rightarrow> ('k \<times> 'c) list) \<Rightarrow> ('k \<times> 'v) rdd \<Rightarrow> ('k \<times> 'c) rdd" where
  "combineByKey createCombiner mergeValue mergeCombiners numPartitions h arrive r =
     (let n = (case numPartitions of None \<Rightarrow> defaultReducePartitions r | Some m \<Rightarrow> m)
      in map (merge_items (\<lambda>c. c) mergeCombiners)
             (partitionBy n h arrive (map (merge_items createCombiner mergeValue) r)))"

definition reduceByKey ::
  "('v \<Rightarrow> 'v \<Rightarrow> 'v) \<Rightarrow> nat option \<Rightarrow> ('k \<Rightarrow> int) \<Rightarrow>
   (('k \<times> 'v) list \<Rightarrow> ('k \<times> 'v) list) \<Rightarrow> ('k \<times> 'v) rdd \<Rightarrow> ('k \<times> 'v) rdd" where
  "reduceByKey func numPartitions h arrive r =
     combineByKey (\<lambda>x. x) func func numPartitions h arrive r"

subsection \<open>The word count\<close>

text \<open>
  \<^verbatim>\<open>x.lower()\<close> and the white space of \<^verbatim>\<open>x.split()\<close> are decided by the Unicode
  tables of the Python runtime; both are parameters (\<open>lower\<close> on a whole line, \<open>space\<close>
  on a character). \<^verbatim>\<open>split()\<close> without a separator cuts at runs of white space and
  returns no empty token.
\<close>

fun split_run :: "('c \<Rightarrow> bool) \<Rightarrow> 'c list \<Rightarrow> 'c list \<Rightarrow> 'c list list" where
  "split_run space cur [] = (if cur = [] then [] else [rev cur])"
| "split_run space cur (c # cs) =
     (if space c then (if cur = [] then split_run space [] cs
                       else rev cur # split_run space [] cs)
      else split_run space (c # cur) cs)"

definition split :: "('c \<Rightarrow> bool) \<Rightarrow> 'c list \<Rightarrow> 'c list list" where
  "split space x = split_run space [] x"

definition add :: "int \<Rightarrow> int \<Rightarrow> int" where
  "add x y = x + y"

definition lyrics_lower :: "('c list \<Rightarrow> 'c list) \<Rightarrow> 'c list rdd \<Rightarrow> 'c list rdd" where
  "lyrics_lower lower lyrics = rdd_map (\<lambda>x. lower x) lyrics"

definition lyrics_words :: "('c \<Rightarrow> bool) \<Rightarrow> 'c list rdd \<Rightarrow> 'c list rdd" where
  "lyrics_words space lyrics = rdd_flatMap (\<lambda>x. split space x) lyrics"

definition lyrics_pairs :: "'c list rdd \<Rightarrow> ('c list \<times> int) rdd" where
  "lyrics_pairs lyrics = rdd_map (\<lambda>x. (x, 1)) lyrics"

definition wordCount ::
  "('c list \<Rightarrow> 'c list) \<Rightarrow> ('c \<Rightarrow> bool) \<Rightarrow> ('c list \<Rightarrow> int) \<Rightarrow>
   (('c list \<times> int) list \<Rightarrow> ('c list \<times> int) list) \<Rightarrow> 'c list rdd \<Rightarrow> ('c list \<times> int) rdd" where
  "wordCount lower space h arrive lyrics =
     reduceByKey (\<lambda>x y. add x y) None h arrive
       (lyrics_pairs (lyrics_words space (lyrics_lower lower lyrics)))"

text \<open>The tokens of the lowercased, whitespace-split corpus, in order.\<close>

definition tokens :: "('c list \<Rightarrow> 'c list) \<Rightarrow> ('c \<Rightarrow> bool) \<Rightarrow> 'c list rdd \<Rightarrow> 'c list list" where
  "tokens lower space lyrics = concat (map (\<lambda>x. split space (lower x)) (collect lyrics))"

text \<open>ASCII instances of the two runtime tables, for evaluating the pipeline.\<close>

definition ascii_space :: "char \<Rightarrow> bool" where
  "ascii_space c =
     (c \<in> set [CHR '' '', CHR 0x09, CHR 0x0A, CHR 0x0B, CHR 0x0C, CHR 0x0D,
                CHR 0x1C, CHR 0x1D, CHR 0x1E, CHR 0x1F])"

definition ascii_lower_char :: "char \<Rightarrow> char" where
  "ascii_lower_char c =
     (if (65::nat) \<le> of_char c \<and> of_char c \<le> (90::nat)
      then char_of (of_char c + (32::nat)) else c)"

definition ascii_lower :: "string \<Rightarrow> string" where
  "ascii_lower x = map ascii_lower_char x"

subsection \<open>The context and the lineage of its collections\<close>

text \<open>
  The elements the notebook puts in collections are integers, strings and tuples. A
  transformation computes nothing when it is called: it records a new collection that
  names its source, and an action (\<^verbatim>\<open>collect\<close>, \<^verbatim>\<open>take\<close>) computes a collection from its
  lineage. The context is the list of the collections created so far. A Python variable
  holds a reference to a collection object; the reference is modelled by the position of
  the collection in the context. It is not the identifier the engine prints, which also
  counts collections the engine creates internally.
\<close>

datatype pyval = PyInt int | PyStr string | PyTuple "pyval list"

datatype transformation =
    Filter "pyval \<Rightarrow> bool"
  | Sample rat int
  | Map "pyval \<Rightarrow> pyval"
  | FlatMap "pyval \<Rightarrow> pyval list"
  | ReduceByKey "pyval \<Rightarrow> pyval \<Rightarrow> pyval"














fun digits_of :: "nat \<Rightarrow> string" where
  "digits_of n =
     (if n < 10 then [char_of (48 + n)] else digits_of (n div 10) @ [char_of (48 + n mod 10)])"




section \<open>The high-level API notebook: the wine dataframe\<close>

text \<open>
  A dataframe is its list of column names and its rows, each row the list of its cells in
  column order. The operators are the relational ones the notebook calls. What the engine
  computes in double precision (averages, rounding, learning, scoring) enters as a
  parameter of the operator that uses it, so every statement below holds whatever the
  arithmetic returns. Cells are equal when the engine takes them for equal; column names
  are matched exactly, as the notebook writes them.
\<close>

record 'v frame =
  columns :: "string list"
  rows :: "'v list list"

definition df_count :: "'v frame \<Rightarrow> nat" where
  "df_count df = length (rows df)"

definition dropDuplicates :: "'v frame \<Rightarrow> 'v frame" where
  "dropDuplicates df = df\<lparr>rows := remdups (rows df)\<rparr>"

subsection \<open>Reading the file\<close>

definition colNames :: "string list" where
  "colNames =
     [''target'', ''alcohol'', ''malic_acid'', ''ash'', ''alcalinity_of_ash'', ''magnesium'',
      ''total_phenols'', ''flavanoids'', ''nonflavanoid_phenols'', ''proanthocyanins'',
      ''color_intensity'', ''hue'', ''od280_od315_of_diluted_wines'', ''proline'']"

definition default_names :: "nat \<Rightarrow> string list" where
  "default_names n = map (\<lambda>i. ''_c'' @ digits_of i) [0..<n]"

text \<open>
  \<^verbatim>\<open>spark.read.csv(path, header=False, inferSchema=True)\<close>. The file is its list of
  lines. \<open>tokenize\<close> is the engine's tokenizer of one line and \<open>cell_of\<close> its conversion
  of a field under the inferred schema. With a header the first line names the columns and
  the other lines are the rows; without one every line is a row and the columns get the
  default names. The model reads files whose lines are non-blank and all of the width of
  the first, as the wine data is; what the engine does with other lines (it skips a blank
  line and pads or cuts a line of another width) is outside it.
\<close>

definition read_csv ::
  "(string \<Rightarrow> string list) \<Rightarrow> (string \<Rightarrow> 'v) \<Rightarrow> bool \<Rightarrow> string list \<Rightarrow> 'v frame" where
  "read_csv tokenize cell_of header file =
     (case file of
        [] \<Rightarrow> \<lparr>columns = [], rows = []\<rparr>
      | l # ls \<Rightarrow>
          if header then \<lparr>columns = tokenize l, rows = map (\<lambda>x. map cell_of (tokenize x)) ls\<rparr>
          else \<lparr>columns = default_names (length (tokenize l)),
                rows = map (\<lambda>x. map cell_of (tokenize x)) (l # ls)\<rparr>)"

definition toDF :: "string list \<Rightarrow> 'v frame \<Rightarrow> error + 'v frame" where
  "toDF names df =
     (if length names = length (columns df) then Inr (df\<lparr>columns := names\<rparr>)
      else Inl IllegalArgumentException)"

definition read_wine ::
  "(string \<Rightarrow> string list) \<Rightarrow> (string \<Rightarrow> 'v) \<Rightarrow> string list \<Rightarrow> error + 'v frame" where
  "read_wine tokenize cell_of file = toDF colNames (read_csv tokenize cell_of False file)"

text \<open>A comma tokenizer for files without quoting, as the wine data is.\<close>

fun fields_run :: "char \<Rightarrow> string \<Rightarrow> string \<Rightarrow> string list" where
  "fields_run sep cur [] = [rev cur]"
| "fields_run sep cur (c # cs) =
     (if c = sep then rev cur # fields_run sep [] cs else fields_run sep (c # cur) cs)"

definition comma_fields :: "string \<Rightarrow> string list" where
  "comma_fields l = fields_run (CHR '','') [] l"

subsection \<open>Basic data cleaning\<close>

text \<open>\<^verbatim>\<open>assert wine.count() == wine.dropDuplicates().count()\<close>\<close>

definition check_duplicates :: "'v frame \<Rightarrow> error + 'v frame" where
  "check_duplicates wine =
     (if df_count wine = df_count (dropDuplicates wine) then Inr wine else Inl AssertionError)"

definition withColumnRenamed :: "string \<Rightarrow> string \<Rightarrow> 'v frame \<Rightarrow> 'v frame" where
  "withColumnRenamed existing new df =
     df\<lparr>columns := map (\<lambda>c. if c = existing then new else c) (columns df)\<rparr>"

definition rename_od280 :: "'v frame \<Rightarrow> 'v frame" where
  "rename_od280 wine = withColumnRenamed ''od280_od315_of_diluted_wines'' ''od280'' wine"

text \<open>The cells of the notebook up to the rename, in order; an exception ends the run.\<close>

definition prepare_wine ::
  "(string \<Rightarrow> string list) \<Rightarrow> (string \<Rightarrow> 'v) \<Rightarrow> string list \<Rightarrow> error + 'v frame" where
  "prepare_wine tokenize cell_of file =
     (case read_wine tokenize cell_of file of
        Inl e \<Rightarrow> Inl e
      | Inr wine \<Rightarrow>
          (case check_duplicates wine of
             Inl e \<Rightarrow> Inl e
           | Inr wine' \<Rightarrow> Inr (rename_od280 wine')))"

subsection \<open>Querying\<close>

text \<open>
  A column name resolves to the position of the one column that carries it; a missing or
  an ambiguous name is an analysis error.
\<close>

definition resolve :: "string \<Rightarrow> string list \<Rightarrow> error + nat" where
  "resolve name cols =
     (case filter (\<lambda>i. cols ! i = name) [0..<length cols] of
        [i] \<Rightarrow> Inr i
      | _ \<Rightarrow> Inl AnalysisException)"

definition createOrReplaceTempView ::
  "string \<Rightarrow> 'v frame \<Rightarrow> (string \<rightharpoonup> 'v frame) \<Rightarrow> (string \<rightharpoonup> 'v frame)" where
  "createOrReplaceTempView name df catalog = catalog(name \<mapsto> df)"

definition select :: "string list \<Rightarrow> 'v frame \<Rightarrow> error + 'v frame" where
  "select names df =
     (let found = map (\<lambda>c. resolve c (columns df)) names in
      if \<forall>x \<in> set found. isl x = False
      then Inr \<lparr>columns = names, rows = map (\<lambda>r. map (\<lambda>x. r ! projr x) found) (rows df)\<rparr>
      else Inl AnalysisException)"

text \<open>
  Grouping by one column and aggregating another: one output row per distinct key, holding
  the key and the aggregate of the group's values in row order.
\<close>

definition group_agg ::
  "string \<Rightarrow> string \<Rightarrow> string \<Rightarrow> ('v list \<Rightarrow> 'v) \<Rightarrow> 'v frame \<Rightarrow> error + 'v frame" where
  "group_agg key col alias agg df =
     (case resolve key (columns df) of
        Inl e \<Rightarrow> Inl e
      | Inr k \<Rightarrow>
          (case resolve col (columns df) of
             Inl e \<Rightarrow> Inl e
           | Inr c \<Rightarrow>
               Inr \<lparr>columns = [key, alias],
                    rows = map (\<lambda>g. [g, agg (map (\<lambda>r. r ! c) (filter (\<lambda>r. r ! k = g) (rows df)))])
                             (remdups (map (\<lambda>r. r ! k) (rows df)))\<rparr>))"

definition orderBy :: "string \<Rightarrow> ('v::linorder) frame \<Rightarrow> error + 'v frame" where
  "orderBy key df =
     (case resolve key (columns df) of
        Inl e \<Rightarrow> Inl e
      | Inr k \<Rightarrow> Inr (df\<lparr>rows := sort_key (\<lambda>r. r ! k) (rows df)\<rparr>))"

text \<open>
  \<^verbatim>\<open>SELECT target, ROUND(AVG(alcohol), 2) AS avgAlcohol FROM wine GROUP BY target
  ORDER BY target\<close>, run on the view registered in the session's catalog.
\<close>

definition sql_avgAlcohol ::
  "('v list \<Rightarrow> 'v) \<Rightarrow> ('v \<Rightarrow> int \<Rightarrow> 'v) \<Rightarrow> (string \<rightharpoonup> ('v::linorder) frame) \<Rightarrow> error + 'v frame" where
  "sql_avgAlcohol avg rnd catalog =
     (case catalog ''wine'' of
        None \<Rightarrow> Inl AnalysisException
      | Some wine \<Rightarrow>
          (case group_agg ''target'' ''alcohol'' ''avgAlcohol'' (\<lambda>vs. rnd (avg vs) 2) wine of
             Inl e \<Rightarrow> Inl e
           | Inr grouped \<Rightarrow> orderBy ''target'' grouped))"

text \<open>
  \<^verbatim>\<open>wine.select(['target', 'alcohol']).groupBy('target')
  .agg(F.round(F.avg('alcohol'), 2).alias('avgAlcohol')).orderBy('target')\<close>
\<close>

definition api_avgAlcohol ::
  "('v list \<Rightarrow> 'v) \<Rightarrow> ('v \<Rightarrow> int \<Rightarrow> 'v) \<Rightarrow> ('v::linorder) frame \<Rightarrow> error + 'v frame" where
  "api_avgAlcohol avg rnd wine =
     (case select [''target'', ''alcohol''] wine of
        Inl e \<Rightarrow> Inl e
      | Inr selected \<Rightarrow>
          (case group_agg ''target'' ''alcohol'' ''avgAlcohol'' (\<lambda>vs. rnd (avg vs) 2) selected of
             Inl e \<Rightarrow> Inl e
           | Inr grouped \<Rightarrow> orderBy ''target'' grouped))"

text \<open>Exact instances of the two arithmetic parameters, for evaluating the queries.\<close>

definition exact_avg :: "rat list \<Rightarrow> rat" where
  "exact_avg vs = sum_list vs / of_nat (length vs)"

definition half_up :: "rat \<Rightarrow> int \<Rightarrow> rat" where
  "half_up x d =
     (if 0 \<le> x then of_int \<lfloor>x * 10 ^ nat d + 1 / 2\<rfloor> / 10 ^ nat d
      else - (of_int \<lfloor>- x * 10 ^ nat d + 1 / 2\<rfloor> / 10 ^ nat d))"

subsection \<open>The machine-learning pipeline\<close>

text \<open>
  The cells of the wine data are integers and doubles (the inferred schema), or null. The
  assembler adds a vector-valued column.
\<close>

datatype cell = Null | IntegerCell int | DoubleCell rat

datatype mlcell = Plain cell | Features "rat list"

fun to_double :: "cell \<Rightarrow> rat option" where
  "to_double Null = None"
| "to_double (IntegerCell i) = Some (of_int i)"
| "to_double (DoubleCell x) = Some x"

text \<open>
  A double is the rational it denotes. An arithmetic operation on doubles returns the
  double nearest to the exact result: \<open>fl\<close>, the rounding, is a parameter, and the
  literals \<^verbatim>\<open>0.7\<close> and \<^verbatim>\<open>0.3\<close> are \<open>fl (7 / 10)\<close> and \<open>fl (3 / 10)\<close>.
\<close>

text \<open>
  The engine orders the rows of a partition before it samples them, ascending in every
  column from the first on, nulls first, so that a row meets the same draw in every split.
\<close>

fun cell_le :: "cell \<Rightarrow> cell \<Rightarrow> bool" where
  "cell_le Null c = True"
| "cell_le (IntegerCell i) Null = False"
| "cell_le (DoubleCell x) Null = False"
| "cell_le (IntegerCell i) (IntegerCell j) = (i \<le> j)"
| "cell_le (IntegerCell i) (DoubleCell y) = (of_int i \<le> y)"
| "cell_le (DoubleCell x) (IntegerCell j) = (x \<le> of_int j)"
| "cell_le (DoubleCell x) (DoubleCell y) = (x \<le> y)"

fun row_le :: "('v \<Rightarrow> 'v \<Rightarrow> bool) \<Rightarrow> 'v list \<Rightarrow> 'v list \<Rightarrow> bool" where
  "row_le le [] ys = True"
| "row_le le (x # xs) [] = False"
| "row_le le (x # xs) (y # ys) = (if le x y \<and> le y x then row_le le xs ys else le x y)"

fun insert_row :: "('v \<Rightarrow> 'v \<Rightarrow> bool) \<Rightarrow> 'v list \<Rightarrow> 'v list list \<Rightarrow> 'v list list" where
  "insert_row le r [] = [r]"
| "insert_row le r (s # ss) = (if row_le le r s then r # s # ss else s # insert_row le r ss)"

definition sort_rows :: "('v \<Rightarrow> 'v \<Rightarrow> bool) \<Rightarrow> 'v list list \<Rightarrow> 'v list list" where
  "sort_rows le rs = foldr (insert_row le) rs []"

text \<open>
  \<^verbatim>\<open>wine.randomSplit([0.7, 0.3], seed=23)\<close>. A negative weight is refused. The weights
  are divided by their sum and summed up from 0 into bounds; split \<open>i\<close> holds the rows,
  in the sorted order, whose draw lies in \<open>[bounds ! i, bounds ! (i + 1))\<close>. Every split
  is sampled with the same seed over the same sorted rows, so a row has one draw for all
  splits: \<open>draws seed j\<close> is the draw in \<open>[0, 1)\<close> of row \<open>j\<close> of the sorted rows, a
  parameter. The data is one partition, as the wine file is.
\<close>

fun scanLeft :: "(rat \<Rightarrow> rat) \<Rightarrow> rat \<Rightarrow> rat list \<Rightarrow> rat list" where
  "scanLeft fl acc [] = [acc]"
| "scanLeft fl acc (w # ws) = acc # scanLeft fl (fl (acc + w)) ws"

definition randomSplit ::
  "(rat \<Rightarrow> rat) \<Rightarrow> ('v \<Rightarrow> 'v \<Rightarrow> bool) \<Rightarrow> (int \<Rightarrow> nat \<Rightarrow> rat) \<Rightarrow> rat list \<Rightarrow> int \<Rightarrow>
   'v frame \<Rightarrow> error + 'v frame list" where
  "randomSplit fl le draws weights seed df =
     (if \<exists>w \<in> set weights. w < 0 then Inl ValueError
      else
        let total = foldl (\<lambda>a w. fl (a + w)) 0 weights in
        if \<not> 0 < total then Inl IllegalArgumentException
        else
          let normalizedCumWeights = scanLeft fl 0 (map (\<lambda>w. fl (w / total)) weights);
              sorted = sort_rows le (rows df);
              drawn = zip sorted (map (draws seed) [0..<length sorted])
          in Inr (map (\<lambda>(lb, ub). df\<lparr>rows := map fst (filter (\<lambda>(r, x). lb \<le> x \<and> x < ub) drawn)\<rparr>)
                    (zip normalizedCumWeights (tl normalizedCumWeights))))"

text \<open>\<^verbatim>\<open>train, test = wine.randomSplit([0.7, 0.3], seed=23)\<close>\<close>

definition train_test ::
  "(rat \<Rightarrow> rat) \<Rightarrow> (int \<Rightarrow> nat \<Rightarrow> rat) \<Rightarrow> cell frame \<Rightarrow> error + cell frame \<times> cell frame" where
  "train_test fl draws wine =
     (case randomSplit fl cell_le draws [fl (7 / 10), fl (3 / 10)] 23 wine of
        Inl e \<Rightarrow> Inl e
      | Inr [train, test] \<Rightarrow> Inr (train, test)
      | Inr _ \<Rightarrow> Inl ValueError)"

text \<open>
  \<^verbatim>\<open>VectorAssembler(inputCols=wine.columns[1:], outputCol='features',
  handleInvalid='error')\<close>: the transformer appends a column that holds, for each row,
  the values of the input columns as doubles, in the order of \<open>inputCols\<close>; a null among
  them is an error, and so are an input column that does not resolve and an output column
  that exists already.
\<close>

record VectorAssembler =
  inputCols :: "string list"
  outputCol :: string

definition assembler :: "'v frame \<Rightarrow> VectorAssembler" where
  "assembler wine = \<lparr>inputCols = drop 1 (columns wine), outputCol = ''features''\<rparr>"

definition assembler_transform :: "VectorAssembler \<Rightarrow> cell frame \<Rightarrow> error + mlcell frame" where
  "assembler_transform a df =
     (let found = map (\<lambda>c. resolve c (columns df)) (inputCols a) in
      if (\<exists>x \<in> set found. isl x) \<or> outputCol a \<in> set (columns df)
      then Inl IllegalArgumentException
      else
        let vectors = map (\<lambda>r. map (\<lambda>x. to_double (r ! projr x)) found) (rows df) in
        if \<exists>v \<in> set vectors. None \<in> set v then Inl SparkException
        else Inr \<lparr>columns = columns df @ [outputCol a],
                  rows = map (\<lambda>(r, v). map Plain r @ [Features (map the v)])
                           (zip (rows df) vectors)\<rparr>)"

text \<open>
  \<^verbatim>\<open>RandomForestClassifier(featuresCol='features', labelCol='target',
  predictionCol='prediction', numTrees=50, maxDepth=5, seed=23)\<close>. Learning is the
  library's: \<open>rf_fit\<close> maps the parameters and an assembled frame to a trained model.
\<close>

record RandomForestClassifier =
  numTrees :: int
  maxDepth :: int
  rf_seed :: int

definition rfModel :: RandomForestClassifier where
  "rfModel = \<lparr>numTrees = 50, maxDepth = 5, rf_seed = 23\<rparr>"

text \<open>\<^verbatim>\<open>pipe = Pipeline(stages=[assembler, rfModel])\<close> and \<^verbatim>\<open>pipe.fit(df)\<close>\<close>

definition pipe_fit ::
  "(RandomForestClassifier \<Rightarrow> mlcell frame \<Rightarrow> 'm) \<Rightarrow> VectorAssembler \<Rightarrow> RandomForestClassifier \<Rightarrow>
   cell frame \<Rightarrow> error + 'm" where
  "pipe_fit rf_fit a rf df =
     (case assembler_transform a df of
        Inl e \<Rightarrow> Inl e
      | Inr assembled \<Rightarrow> Inr (rf_fit rf assembled))"

definition pipe_transform ::
  "('m \<Rightarrow> mlcell frame \<Rightarrow> mlcell frame) \<Rightarrow> VectorAssembler \<Rightarrow> 'm \<Rightarrow> cell frame \<Rightarrow> error + mlcell frame" where
  "pipe_transform rf_transform a m df =
     (case assembler_transform a df of
        Inl e \<Rightarrow> Inl e
      | Inr assembled \<Rightarrow> Inr (rf_transform m assembled))"

text \<open>
  The cells from the split to the two scores: \<^verbatim>\<open>pipeModel = pipe.fit(train)\<close>,
  \<^verbatim>\<open>evaluator.evaluate(pipeModel.transform(train))\<close> and the same on \<^verbatim>\<open>test\<close>. The
  result is the trained model with the two F1 scores.
\<close>

definition pipeModel ::
  "(RandomForestClassifier \<Rightarrow> mlcell frame \<Rightarrow> 'm) \<Rightarrow> (rat \<Rightarrow> rat) \<Rightarrow> (int \<Rightarrow> nat \<Rightarrow> rat) \<Rightarrow>
   cell frame \<Rightarrow> error + 'm" where
  "pipeModel rf_fit fl draws wine =
     (case train_test fl draws wine of
        Inl e \<Rightarrow> Inl e
      | Inr (train, test) \<Rightarrow> pipe_fit rf_fit (assembler wine) rfModel train)"

definition fit_and_score ::
  "(RandomForestClassifier \<Rightarrow> mlcell frame \<Rightarrow> 'm) \<Rightarrow> ('m \<Rightarrow> mlcell frame \<Rightarrow> mlcell frame) \<Rightarrow>
   (mlcell frame \<Rightarrow> rat) \<Rightarrow> (rat \<Rightarrow> rat) \<Rightarrow> (int \<Rightarrow> nat \<Rightarrow> rat) \<Rightarrow> cell frame \<Rightarrow>
   error + 'm \<times> rat \<times> rat" where
  "fit_and_score rf_fit rf_transform evaluate fl draws wine =
     (case train_test fl draws wine of
        Inl e \<Rightarrow> Inl e
      | Inr (train, test) \<Rightarrow>
          (case pipe_fit rf_fit (assembler wine) rfModel train of
             Inl e \<Rightarrow> Inl e
           | Inr m \<Rightarrow>
               (case pipe_transform rf_transform (assembler wine) m train of
                  Inl e \<Rightarrow> Inl e
                | Inr trainResults \<Rightarrow>
                    (case pipe_transform rf_transform (assembler wine) m test of
                       Inl e \<Rightarrow> Inl e
                     | Inr testResults \<Rightarrow> Inr (m, evaluate trainResults, evaluate testResults)))))"

subsection \<open>Parameter tuning\<close>

text \<open>
  \<^verbatim>\<open>ParamGridBuilder().addGrid(rfModel.numTrees, [50, 100, 150])
  .addGrid(rfModel.maxDepth, [5, 10, 15]).build()\<close>: the builder keeps a dictionary from
  parameter to values, and \<^verbatim>\<open>build\<close> returns one parameter map for each element of the
  product of the value lists, the last parameter varying fastest.
\<close>

datatype param = NumTrees | MaxDepth

definition ParamGridBuilder :: "(param \<times> int list) list" where
  "ParamGridBuilder = []"

definition addGrid :: "param \<Rightarrow> int list \<Rightarrow> (param \<times> int list) list \<Rightarrow> (param \<times> int list) list" where
  "addGrid p values grid = AList.update p values grid"

fun build :: "(param \<times> int list) list \<Rightarrow> (param \<times> int) list list" where
  "build [] = [[]]"
| "build ((p, values) # grid) = concat (map (\<lambda>v. map (\<lambda>m. (p, v) # m) (build grid)) values)"

definition params :: "(param \<times> int) list list" where
  "params = build (addGrid MaxDepth [5, 10, 15] (addGrid NumTrees [50, 100, 150] ParamGridBuilder))"

text \<open>
  \<^verbatim>\<open>CrossValidator(estimator=pipe, estimatorParamMaps=params, evaluator=evaluator,
  numFolds=5)\<close> and \<^verbatim>\<open>cv.fit(train)\<close>. The data gets a column of random numbers in
  \<open>[0, 1)\<close>, named after the validator's identifier \<open>uid\<close> (\<open>rand j\<close> is the number of
  row \<open>j\<close>, a parameter); with \<open>h = 1.0 / nFolds\<close>, fold \<open>i\<close> validates on the rows
  whose number lies in \<open>[i * h, (i + 1) * h)\<close> and trains on the others. For every fold
  and every parameter map the estimator is fitted on the training part and scored on the
  validation part (\<open>score\<close>, the library's fitting and F1 evaluation); the average
  metric of a parameter map is the mean of its scores over the folds.
\<close>

definition kFold ::
  "(rat \<Rightarrow> rat) \<Rightarrow> string \<Rightarrow> (nat \<Rightarrow> rat) \<Rightarrow> nat \<Rightarrow> cell frame \<Rightarrow> (cell frame \<times> cell frame) list" where
  "kFold fl uid rand nFolds dataset =
     (let h = fl (1 / of_nat nFolds);
          randCol = uid @ ''_rand'';
          numbered = zip (rows dataset) (map rand [0..<length (rows dataset)]);
          df = \<lparr>columns = columns dataset @ [randCol],
                rows = map (\<lambda>(r, x). r @ [DoubleCell x]) numbered\<rparr>
      in map (\<lambda>i. let validateLB = fl (of_nat i * h); validateUB = fl (of_nat (i + 1) * h)
                  in (df\<lparr>rows := map (\<lambda>(r, x). r @ [DoubleCell x])
                                 (filter (\<lambda>(r, x). \<not> (validateLB \<le> x \<and> x < validateUB)) numbered)\<rparr>,
                      df\<lparr>rows := map (\<lambda>(r, x). r @ [DoubleCell x])
                                 (filter (\<lambda>(r, x). validateLB \<le> x \<and> x < validateUB) numbered)\<rparr>))
             [0..<nFolds])"

definition cv_fit ::
  "((param \<times> int) list \<Rightarrow> cell frame \<Rightarrow> cell frame \<Rightarrow> rat) \<Rightarrow> (rat \<Rightarrow> rat) \<Rightarrow> string \<Rightarrow>
   (nat \<Rightarrow> rat) \<Rightarrow> nat \<Rightarrow> (param \<times> int) list list \<Rightarrow> cell frame \<Rightarrow> rat list" where
  "cv_fit score fl uid rand nFolds epm dataset =
     (let datasets = kFold fl uid rand nFolds dataset;
          metrics_all = map (\<lambda>(train, validation). map (\<lambda>m. score m train validation) epm) datasets
      in map (\<lambda>j. sum_list (map (\<lambda>ms. ms ! j) metrics_all) / of_nat nFolds) [0..<length epm])"

definition numFolds :: nat where
  "numFolds = 5"

definition avgMetrics ::
  "((param \<times> int) list \<Rightarrow> cell frame \<Rightarrow> cell frame \<Rightarrow> rat) \<Rightarrow> (rat \<Rightarrow> rat) \<Rightarrow> string \<Rightarrow>
   (nat \<Rightarrow> rat) \<Rightarrow> cell frame \<Rightarrow> rat list" where
  "avgMetrics score fl uid rand train = cv_fit score fl uid rand numFolds params train"

text \<open>The first two rows that \<^verbatim>\<open>wine.show(5)\<close> prints, for evaluating the operators.\<close>

definition wine_head :: "cell frame" where
  "wine_head =
     \<lparr>columns = colNames,
      rows = [[IntegerCell 1, DoubleCell (1423 / 100), DoubleCell (171 / 100),
               DoubleCell (243 / 100), DoubleCell (156 / 10), IntegerCell 127,
               DoubleCell (28 / 10), DoubleCell (306 / 100), DoubleCell (28 / 100),
               DoubleCell (229 / 100), DoubleCell (564 / 100), DoubleCell (104 / 100),
               DoubleCell (392 / 100), IntegerCell 1065],
              [IntegerCell 1, DoubleCell (132 / 10), DoubleCell (178 / 100),
               DoubleCell (214 / 100), DoubleCell (112 / 10), IntegerCell 100,
               DoubleCell (265 / 100), DoubleCell (276 / 100), DoubleCell (26 / 100),
               DoubleCell (128 / 100), DoubleCell (438 / 100), DoubleCell (105 / 100),
               DoubleCell (34 / 10), IntegerCell 1050]]\<rparr>"

section \<open>Notions used to state the properties\<close>

text \<open>
  The values a key carries in a list of pairs, in order; the reduction of a list of values
  by a binary function from the left (nothing for the empty list); the reduction lifted to
  optional values; and the list of at most one pair that a key contributes to a result.
\<close>

definition vals :: "'k \<Rightarrow> ('k \<times> 'v) list \<Rightarrow> 'v list" where
  "vals k xs = map snd (filter (\<lambda>kv. fst kv = k) xs)"

fun reduce_values :: "('v \<Rightarrow> 'v \<Rightarrow> 'v) \<Rightarrow> 'v list \<Rightarrow> 'v option" where
  "reduce_values f [] = None"
| "reduce_values f (v # vs) = Some (foldl f v vs)"

definition oplus :: "('v \<Rightarrow> 'v \<Rightarrow> 'v) \<Rightarrow> 'v option \<Rightarrow> 'v option \<Rightarrow> 'v option" where
  "oplus f a b =
     (case a of None \<Rightarrow> b | Some x \<Rightarrow> (case b of None \<Rightarrow> Some x | Some y \<Rightarrow> Some (f x y)))"

definition one_pair :: "'k \<Rightarrow> 'v option \<Rightarrow> ('k \<times> 'v) list" where
  "one_pair k a = (case a of None \<Rightarrow> [] | Some c \<Rightarrow> [(k, c)])"

section \<open>Properties of the low-level API notebook\<close>

subsection \<open>Reduction by key\<close>

lemma oplus_None [simp]: "oplus f None b = b" "oplus f a None = a"
  by (simp_all add: oplus_def split: option.splits)

lemma oplus_Some [simp]: "oplus f (Some x) (Some y) = Some (f x y)"
  by (simp add: oplus_def)

lemma oplus_assoc:
  assumes "\<And>x y z. f (f x y) z = f x (f y z)"
  shows "oplus f (oplus f a b) c = oplus f a (oplus f b c)"
  by (cases a; cases b; cases c) (simp_all add: assms)

lemma oplus_commute:
  assumes "\<And>x y. f x y = f y x"
  shows "oplus f a b = oplus f b a"
  by (cases a; cases b) (simp_all add: assms)

lemma reduce_values_snoc: "reduce_values f (vs @ [v]) = oplus f (reduce_values f vs) (Some v)"
  by (cases vs) simp_all

lemma reduce_values_append:
  assumes "\<And>x y z. f (f x y) z = f x (f y z)"
  shows "reduce_values f (xs @ ys) = oplus f (reduce_values f xs) (reduce_values f ys)"
proof (induction ys rule: rev_induct)
  case Nil
  show ?case by simp
next
  case (snoc y ys)
  have "reduce_values f (xs @ ys @ [y]) = oplus f (reduce_values f (xs @ ys)) (Some y)"
    using reduce_values_snoc [of f "xs @ ys" y] by simp
  also have "\<dots> = oplus f (reduce_values f xs) (oplus f (reduce_values f ys) (Some y))"
    by (simp add: snoc.IH oplus_assoc [OF assms])
  finally show ?case by (simp add: reduce_values_snoc)
qed

lemma reduce_values_fold:
  "reduce_values f vs = fold (\<lambda>v a. oplus f a (Some v)) vs None"
  by (induction vs rule: rev_induct) (simp_all add: reduce_values_snoc)

lemma reduce_values_mset:
  assumes comm: "\<And>x y. f x y = f y x"
    and assoc: "\<And>x y z. f (f x y) z = f x (f y z)"
    and perm: "mset xs = mset ys"
  shows "reduce_values f xs = reduce_values f ys"
proof -
  have "(\<lambda>a. oplus f a (Some x)) \<circ> (\<lambda>a. oplus f a (Some y))
      = (\<lambda>a. oplus f a (Some y)) \<circ> (\<lambda>a. oplus f a (Some x))" for x y
  proof
    fix a
    have "oplus f (oplus f a (Some y)) (Some x) = oplus f a (oplus f (Some y) (Some x))"
      by (rule oplus_assoc [OF assoc])
    also have "\<dots> = oplus f a (oplus f (Some x) (Some y))"
      by (simp add: comm)
    also have "\<dots> = oplus f (oplus f a (Some x)) (Some y)"
      by (rule oplus_assoc [OF assoc, symmetric])
    finally show "((\<lambda>a. oplus f a (Some x)) \<circ> (\<lambda>a. oplus f a (Some y))) a
      = ((\<lambda>a. oplus f a (Some y)) \<circ> (\<lambda>a. oplus f a (Some x))) a"
      by simp
  qed
  then have "fold (\<lambda>v a. oplus f a (Some v)) xs = fold (\<lambda>v a. oplus f a (Some v)) ys"
    by (intro fold_multiset_equiv perm)
  then show ?thesis by (simp add: reduce_values_fold)
qed

lemma vals_append [simp]: "vals k (xs @ ys) = vals k xs @ vals k ys"
  by (simp add: vals_def)

lemma vals_Nil [simp]: "vals k [] = []"
  by (simp add: vals_def)

lemma vals_concat: "vals k (concat xss) = concat (map (vals k) xss)"
  by (induction xss) simp_all

lemma vals_mset: "mset xs = mset ys \<Longrightarrow> mset (vals k xs) = mset (vals k ys)"
  unfolding vals_def by (metis mset_filter mset_map)

lemma map_of_merge_into:
  "map_of (merge_into (\<lambda>x. x) f d kv) k =
     (if k = fst kv then oplus f (map_of d k) (Some (snd kv)) else map_of d k)"
  by (simp add: merge_into_def update_conv' oplus_def split: option.splits)

lemma map_of_merge_items:
  "map_of (merge_items (\<lambda>x. x) f xs) k = reduce_values f (vals k xs)"
proof (induction xs rule: rev_induct)
  case Nil
  show ?case by (simp add: merge_items_def)
next
  case (snoc kv xs)
  have "map_of (merge_items (\<lambda>x. x) f (xs @ [kv])) k
      = map_of (merge_into (\<lambda>x. x) f (merge_items (\<lambda>x. x) f xs) kv) k"
    by (simp add: merge_items_def)
  also have "\<dots> = (if k = fst kv then oplus f (reduce_values f (vals k xs)) (Some (snd kv))
                   else reduce_values f (vals k xs))"
    using snoc.IH by (auto simp: map_of_merge_into)
  also have "\<dots> = reduce_values f (vals k (xs @ [kv]))"
    by (simp add: vals_def reduce_values_snoc)
  finally show ?case .
qed

lemma distinct_merge_items: "distinct (map fst (merge_items creator comb xs))"
proof (induction xs rule: rev_induct)
  case Nil
  show ?case by (simp add: merge_items_def)
next
  case (snoc kv xs)
  then show ?case by (simp add: merge_items_def merge_into_def distinct_update)
qed

lemma filter_key_distinct:
  "distinct (map fst d) \<Longrightarrow> filter (\<lambda>kv. fst kv = k) d = one_pair k (map_of d k)"
proof (induction d)
  case Nil
  show ?case by (simp add: one_pair_def)
next
  case (Cons p d)
  show ?case
  proof (cases "fst p = k")
    case True
    with Cons.prems have "k \<notin> fst ` set d" by auto
    then have "filter (\<lambda>kv. fst kv = k) d = []"
      by (auto simp: filter_empty_conv)
    with True show ?thesis by (cases p) (simp add: one_pair_def)
  next
    case False
    with Cons show ?thesis by (cases p) auto
  qed
qed

lemma filter_key_merge_items:
  "filter (\<lambda>kv. fst kv = k) (merge_items (\<lambda>x. x) f xs) = one_pair k (reduce_values f (vals k xs))"
  by (simp add: filter_key_distinct [OF distinct_merge_items] map_of_merge_items)

lemma vals_one_pair: "vals k (one_pair k a) = (case a of None \<Rightarrow> [] | Some c \<Rightarrow> [c])"
  by (simp add: vals_def one_pair_def split: option.splits)

lemma vals_merge_items:
  "vals k (merge_items (\<lambda>x. x) f xs) = (case reduce_values f (vals k xs) of None \<Rightarrow> [] | Some c \<Rightarrow> [c])"
proof -
  have "vals k (merge_items (\<lambda>x. x) f xs) = vals k (one_pair k (reduce_values f (vals k xs)))"
    unfolding vals_def [of k "merge_items (\<lambda>x. x) f xs"] filter_key_merge_items
    by (simp add: one_pair_def vals_def split: option.splits)
  then show ?thesis by (simp add: vals_one_pair)
qed

lemma reduce_values_option: "reduce_values f (case a of None \<Rightarrow> [] | Some c \<Rightarrow> [c]) = a"
  by (cases a) simp_all

lemma reduce_values_locally:
  assumes assoc: "\<And>x y z. f (f x y) z = f x (f y z)"
  shows "reduce_values f (vals k (concat (map (merge_items (\<lambda>x. x) f) r)))
       = reduce_values f (vals k (concat r))"
proof (induction r)
  case Nil
  show ?case by simp
next
  case (Cons p r)
  show ?case
    by (simp add: reduce_values_append [OF assoc] vals_merge_items reduce_values_option Cons.IH)
qed

lemma vals_bucket:
  "vals k (filter (\<lambda>kv. bucket n h (fst kv) = p) xs) = (if bucket n h k = p then vals k xs else [])"
  by (induction xs) (auto simp: vals_def)

lemma concat_single_bucket:
  "b < n \<Longrightarrow> concat (map (\<lambda>p. if b = p then ys else []) [0..<n]) = ys"
proof (induction n)
  case 0
  then show ?case by simp
next
  case (Suc n)
  show ?case
  proof (cases "b = n")
    case True
    have "concat (map (\<lambda>p. if b = p then ys else []) [0..<n]) = []"
      using True by (auto simp: concat_eq_Nil_conv)
    with True show ?thesis by simp
  next
    case False
    with Suc show ?thesis by simp
  qed
qed

lemma bucket_less: "0 < n \<Longrightarrow> bucket n h k < n"
  by (simp add: bucket_def nat_less_iff)

lemma reduceByKey_key:
  assumes comm: "\<And>x y. f x y = f y x"
    and assoc: "\<And>x y z. f (f x y) z = f x (f y z)"
    and arrive: "\<And>xs. mset (arrive xs) = mset xs"
    and n: "numPartitions \<noteq> Some 0"
  shows "filter (\<lambda>kv. fst kv = k) (collect (reduceByKey f numPartitions h arrive r))
       = one_pair k (reduce_values f (vals k (collect r)))"
proof -
  define n where "n = (case numPartitions of None \<Rightarrow> defaultReducePartitions r | Some m \<Rightarrow> m)"
  let ?C = "concat (map (merge_items (\<lambda>x. x) f) r)"
  let ?R = "one_pair k (reduce_values f (vals k (collect r)))"
  have part: "filter (\<lambda>kv. fst kv = k)
          (merge_items (\<lambda>x. x) f (arrive (filter (\<lambda>kv. bucket n h (fst kv) = p) ?C)))
        = (if bucket n h k = p then ?R else [])" for p
  proof -
    have "reduce_values f (vals k (arrive (filter (\<lambda>kv. bucket n h (fst kv) = p) ?C)))
        = reduce_values f (vals k (filter (\<lambda>kv. bucket n h (fst kv) = p) ?C))"
      by (rule reduce_values_mset [OF comm assoc vals_mset [OF arrive]])
    also have "\<dots> = (if bucket n h k = p then reduce_values f (vals k (collect r)) else None)"
      by (simp add: vals_bucket reduce_values_locally [OF assoc] collect_def)
    finally show ?thesis
      by (simp add: filter_key_merge_items one_pair_def)
  qed
  have "collect (reduceByKey f numPartitions h arrive r)
      = concat (map (\<lambda>p. merge_items (\<lambda>x. x) f
                   (arrive (filter (\<lambda>kv. bucket n h (fst kv) = p) ?C))) [0..<n])"
    by (simp add: reduceByKey_def combineByKey_def partitionBy_def collect_def comp_def n_def Let_def)
  then have "filter (\<lambda>kv. fst kv = k) (collect (reduceByKey f numPartitions h arrive r))
      = concat (map (\<lambda>p. filter (\<lambda>kv. fst kv = k) (merge_items (\<lambda>x. x) f
                   (arrive (filter (\<lambda>kv. bucket n h (fst kv) = p) ?C)))) [0..<n])"
    by (simp only: filter_concat map_map comp_def)
  also have "\<dots> = concat (map (\<lambda>p. if bucket n h k = p then ?R else []) [0..<n])"
    by (simp only: part)
  also have "\<dots> = ?R"
  proof (cases "n = 0")
    case True
    with n have "r = []"
      by (cases numPartitions) (simp_all add: n_def defaultReducePartitions_def)
    with True show ?thesis by (simp add: collect_def one_pair_def)
  next
    case False
    then show ?thesis by (simp add: concat_single_bucket bucket_less)
  qed
  finally show ?thesis .
qed

lemma same_keys_same_mset:
  fixes xs ys :: "('k \<times> 'v) list"
  assumes "\<And>k. filter (\<lambda>kv. fst kv = k) xs = filter (\<lambda>kv. fst kv = k) ys"
  shows "mset xs = mset ys"
proof (rule multiset_eqI)
  fix x :: "'k \<times> 'v"
  have "count (mset xs) x = count (mset (filter (\<lambda>kv. fst kv = fst x) xs)) x"
    by simp
  also have "\<dots> = count (mset (filter (\<lambda>kv. fst kv = fst x) ys)) x"
    by (simp only: assms)
  also have "\<dots> = count (mset ys) x"
    by simp
  finally show "count (mset xs) x = count (mset ys) x" .
qed

lemma collect_lyrics_pairs:
  "collect (lyrics_pairs (lyrics_words space (lyrics_lower lower lyrics)))
     = map (\<lambda>x. (x, 1)) (tokens lower space lyrics)"
proof -
  have "concat (map (\<lambda>p. map (\<lambda>x. (x, 1::int)) (concat (map (\<lambda>x. split space (lower x)) p))) r)
      = map (\<lambda>x. (x, 1)) (concat (map (\<lambda>x. split space (lower x)) (concat r)))" for r
    by (induction r) simp_all
  then show ?thesis
    by (simp add: lyrics_pairs_def lyrics_words_def lyrics_lower_def tokens_def collect_def
        rdd_map_def rdd_flatMap_def comp_def)
qed

lemma vals_ones: "vals t (map (\<lambda>x. (x, 1::int)) ws) = replicate (count_list ws t) 1"
  by (induction ws) (simp_all add: vals_def)

lemma foldl_add_ones: "foldl (\<lambda>x y. add x y) a (replicate m 1) = a + int m"
  by (induction m arbitrary: a) (simp_all add: add_def)

lemma reduce_values_ones:
  "reduce_values (\<lambda>x y. add x y) (replicate m 1) = (if m = 0 then None else Some (int m))"
  by (cases m) (simp_all add: foldl_add_ones)

subsection \<open>The lineage of collections\<close>
























section \<open>Properties of the high-level API notebook\<close>

lemma check_duplicates_error: "check_duplicates wine = Inl e \<Longrightarrow> e = AssertionError"
  by (simp add: check_duplicates_def split: if_splits)

lemma read_wine_error: "read_wine tokenize cell_of file \<noteq> Inl AssertionError"
  by (simp add: read_wine_def toDF_def)

lemma count_dropDuplicates:
  "df_count wine = df_count (dropDuplicates wine) \<longleftrightarrow> distinct (rows wine)"
proof -
  have "length (rows wine) = length (remdups (rows wine)) \<longleftrightarrow> distinct (rows wine)"
    by (metis length_remdups_eq remdups_id_iff_distinct)
  then show ?thesis by (simp add: df_count_def dropDuplicates_def)
qed

lemma check_duplicates_raises:
  "check_duplicates w = Inl AssertionError \<longleftrightarrow> \<not> distinct (rows w)"
  by (simp add: check_duplicates_def count_dropDuplicates)

lemma length_colNames: "length colNames = 14"
  by (simp add: colNames_def)

lemma resolve_error: "resolve name cols = Inl e \<Longrightarrow> e = AnalysisException"
  by (simp add: resolve_def split: list.splits)

lemma resolve_cases:
  obtains i where "resolve name cols = Inr i" | "resolve name cols = Inl AnalysisException"
  by (cases "resolve name cols") (auto dest: resolve_error)

lemma resolve_target_alcohol:
  "resolve ''target'' [''target'', ''alcohol''] = Inr 0"
  "resolve ''alcohol'' [''target'', ''alcohol''] = Inr 1"
  by (simp_all add: resolve_def)

lemma select_target_alcohol:
  "select [''target'', ''alcohol''] wine =
     (case resolve ''target'' (columns wine) of
        Inl e \<Rightarrow> Inl AnalysisException
      | Inr t \<Rightarrow>
          (case resolve ''alcohol'' (columns wine) of
             Inl e \<Rightarrow> Inl AnalysisException
           | Inr a \<Rightarrow> Inr \<lparr>columns = [''target'', ''alcohol''],
                           rows = map (\<lambda>r. [r ! t, r ! a]) (rows wine)\<rparr>))"
  by (simp add: select_def Let_def split: sum.splits)

lemma group_agg_selected:
  assumes "resolve ''target'' (columns wine) = Inr t" and "resolve ''alcohol'' (columns wine) = Inr a"
  shows "group_agg ''target'' ''alcohol'' alias agg
           \<lparr>columns = [''target'', ''alcohol''], rows = map (\<lambda>r. [r ! t, r ! a]) (rows wine)\<rparr>
       = group_agg ''target'' ''alcohol'' alias agg wine"
proof -
  have "map (\<lambda>r. r ! Suc 0) (filter (\<lambda>r. r ! 0 = g) (map (\<lambda>r. [r ! t, r ! a]) rs))
      = map (\<lambda>r. r ! a) (filter (\<lambda>r. r ! t = g) rs)" for g and rs :: "'a list list"
    by (induction rs) simp_all
  then show ?thesis
    using assms by (simp add: group_agg_def resolve_target_alcohol comp_def)
qed

lemma resolve_features:
  "map (\<lambda>c. resolve c (colNames[12 := ''od280''])) (drop 1 (colNames[12 := ''od280'']))
     = map Inr [1, 2, 3, 4, 5, 6, 7, 8, 9, 10, 11, 12, 13]"
  by (simp add: colNames_def resolve_def upt_rec [of _ "numeral n" for n] upt_rec [of _ "Suc n" for n])

lemma features_positions:
  assumes "length r = 14"
  shows "map (\<lambda>i. r ! i) [1, 2, 3, 4, 5, 6, 7, 8, 9, 10, 11, 12, 13] = drop 1 r"
proof -
  have "[1, 2, 3, 4, 5, 6, 7, 8, 9, 10, 11, 12, 13] = [1..<14::nat]"
    by (simp add: upt_rec [of _ "numeral n" for n] upt_rec [of _ "Suc n" for n])
  moreover have "map (\<lambda>i. r ! i) [1..<14] = drop 1 r"
    using assms by (intro nth_equalityI) simp_all
  ultimately show ?thesis by simp
qed

lemma map_zip_same:
  "map (\<lambda>(r, v). g r v) (zip rs (map f rs)) = map (\<lambda>r. g r (f r)) rs"
  by (induction rs) simp_all

lemma to_double_None: "None \<in> set (map to_double cs) \<longleftrightarrow> Null \<in> set cs"
proof (induction cs)
  case Nil
  show ?case by simp
next
  case (Cons c cs)
  then show ?case by (cases c) auto
qed

lemma features_not_a_wine_column: "''features'' \<notin> set (colNames[12 := ''od280''])"
  by (simp add: colNames_def)

lemma assembler_transform_wine:
  assumes "columns wine = colNames[12 := ''od280'']"
    and "columns df = columns wine"
    and "\<forall>r \<in> set (rows df). length r = 14"
  shows "assembler_transform (assembler wine) df =
     (if \<exists>r \<in> set (rows df). Null \<in> set (drop 1 r)
      then Inl SparkException
      else Inr \<lparr>columns = columns df @ [''features''],
                rows = map (\<lambda>r. map Plain r @ [Features (map (\<lambda>c. the (to_double c)) (drop 1 r))])
                         (rows df)\<rparr>)"
proof -
  let ?idx = "[1, 2, 3, 4, 5, 6, 7, 8, 9, 10, 11, 12, 13] :: nat list"
  have found: "map (\<lambda>c. resolve c (columns df)) (inputCols (assembler wine)) = map Inr ?idx"
    using resolve_features by (simp add: assembler_def assms(1,2))
  have fresh: "outputCol (assembler wine) \<notin> set (columns df)"
    using features_not_a_wine_column by (simp add: assembler_def assms(1,2))
  have vec: "map (\<lambda>x. to_double (r ! projr x)) (map Inr ?idx) = map to_double (drop 1 r)"
    if "r \<in> set (rows df)" for r
  proof -
    from that assms(3) have "length r = 14" by blast
    have "map (\<lambda>x. to_double (r ! projr x)) (map Inr ?idx) = map to_double (map (\<lambda>i. r ! i) ?idx)"
      by (simp only: map_map comp_def sum.sel)
    then show ?thesis
      by (simp only: features_positions [OF \<open>length r = 14\<close>])
  qed
  have vectors: "map (\<lambda>r. map (\<lambda>x. to_double (r ! projr x)) (map Inr ?idx)) (rows df)
               = map (\<lambda>r. map to_double (drop 1 r)) (rows df)"
    using vec by (intro map_cong refl)
  have noerr: "\<not> (\<exists>x \<in> set (map Inr ?idx :: (error + nat) list). isl x)"
    by simp
  have shape: "assembler_transform (assembler wine) df =
     (if \<exists>v \<in> set (map (\<lambda>r. map to_double (drop 1 r)) (rows df)). None \<in> set v
      then Inl SparkException
      else Inr \<lparr>columns = columns df @ [''features''],
                rows = map (\<lambda>r. map Plain r @ [Features (map the (map to_double (drop 1 r)))]) (rows df)\<rparr>)"
    unfolding assembler_transform_def Let_def found vectors
    using fresh noerr by (simp add: map_zip_same assembler_def del: One_nat_def)
  have nulls: "(\<exists>v \<in> set (map (\<lambda>r. map to_double (drop 1 r)) (rows df)). None \<in> set v)
      \<longleftrightarrow> (\<exists>r \<in> set (rows df). Null \<in> set (drop 1 r))"
    using to_double_None by (auto simp del: One_nat_def)
  show ?thesis
    unfolding shape nulls by (simp add: comp_def del: One_nat_def)
qed

lemma mset_split_by_draw:
  assumes "length ds = length rs"
  shows "mset (map fst (filter (\<lambda>(r, x). P x) (zip rs ds)))
       + mset (map fst (filter (\<lambda>(r, x). \<not> P x) (zip rs ds))) = mset rs"
  using assms
proof (induction rs arbitrary: ds)
  case Nil
  show ?case by simp
next
  case (Cons r rs)
  then obtain d ds' where "ds = d # ds'" "length ds' = length rs"
    by (cases ds) auto
  with Cons.IH [of ds'] show ?case by simp
qed

lemma set_split_subset: "set (map fst (filter Q (zip rs ds))) \<subseteq> set rs"
  by (auto dest: set_zip_leftD)

lemma disjoint_split_by_draw:
  assumes "distinct rs"
  shows "set (map fst (filter (\<lambda>(r, x). P x) (zip rs ds)))
       \<inter> set (map fst (filter (\<lambda>(r, x). \<not> P x) (zip rs ds))) = {}"
  using assms
proof (induction rs arbitrary: ds)
  case Nil
  show ?case by simp
next
  case (Cons r rs)
  show ?case
  proof (cases ds)
    case Nil
    then show ?thesis by simp
  next
    case (Cons d ds')
    have a: "r \<notin> set (map fst (filter Q (zip rs ds')))" for Q
      using Cons.prems set_split_subset [of Q rs ds'] by auto
    from Cons.IH [of ds'] Cons.prems a [of "\<lambda>(r, x). P x"] a [of "\<lambda>(r, x). \<not> P x"] Cons
    show ?thesis by auto
  qed
qed

lemma mset_insert_row: "mset (insert_row le r ss) = add_mset r (mset ss)"
  by (induction ss) simp_all

lemma mset_sort_rows: "mset (sort_rows le rs) = mset rs"
  by (induction rs) (simp_all add: sort_rows_def mset_insert_row)

lemma length_sort_rows: "length (sort_rows le rs) = length rs"
  using mset_sort_rows [of le rs] by (metis size_mset)

lemma set_sort_rows: "set (sort_rows le rs) = set rs"
  using mset_sort_rows [of le rs] by (metis set_mset_mset)

lemma distinct_sort_rows: "distinct (sort_rows le rs) = distinct rs"
  using mset_sort_rows [of le rs] by (metis mset_eq_imp_distinct_iff)

lemma bounds_wine:
  assumes "mono fl" and "fl 0 = 0" and "\<forall>x. fl (fl x) = fl x"
    and "fl (fl (7 / 10) + fl (3 / 10)) = 1"
  shows "0 \<le> fl (7 / 10)" and "0 \<le> fl (3 / 10)"
    and "foldl (\<lambda>a w. fl (a + w)) 0 [fl (7 / 10), fl (3 / 10)] = 1"
    and "scanLeft fl 0 (map (\<lambda>w. fl (w / 1)) [fl (7 / 10), fl (3 / 10)]) = [0, fl (7 / 10), 1]"
proof -
  have "fl 0 \<le> fl (7 / 10)" "fl 0 \<le> fl (3 / 10)"
    using assms(1) by (simp_all add: monoD)
  then show "0 \<le> fl (7 / 10)" and "0 \<le> fl (3 / 10)"
    by (simp_all add: assms(2))
  show "foldl (\<lambda>a w. fl (a + w)) 0 [fl (7 / 10), fl (3 / 10)] = 1"
    using assms(3,4) by simp
  show "scanLeft fl 0 (map (\<lambda>w. fl (w / 1)) [fl (7 / 10), fl (3 / 10)]) = [0, fl (7 / 10), 1]"
    using assms(3,4) by simp
qed

lemma train_test_rows:
  assumes "mono fl" and "fl 0 = 0" and "\<forall>x. fl (fl x) = fl x"
    and "fl (fl (7 / 10) + fl (3 / 10)) = 1"
    and "\<forall>j. 0 \<le> draws 23 j \<and> draws 23 j < 1"
  shows "train_test fl draws wine =
     Inr (wine\<lparr>rows := map fst (filter (\<lambda>(r, x). x < fl (7 / 10))
                    (zip (sort_rows cell_le (rows wine)) (map (draws 23) [0..<length (rows wine)])))\<rparr>,
          wine\<lparr>rows := map fst (filter (\<lambda>(r, x). \<not> x < fl (7 / 10))
                    (zip (sort_rows cell_le (rows wine)) (map (draws 23) [0..<length (rows wine)])))\<rparr>)"
proof -
  let ?drawn = "zip (sort_rows cell_le (rows wine)) (map (draws 23) [0..<length (rows wine)])"
  note b = bounds_wine [OF assms(1-4)]
  have in01: "0 \<le> x \<and> x < 1" if "(r, x) \<in> set ?drawn" for r x
    using that assms(5) by (auto simp: in_set_zip)
  have lo: "filter (\<lambda>(r, x). 0 \<le> x \<and> x < fl (7 / 10)) ?drawn = filter (\<lambda>(r, x). x < fl (7 / 10)) ?drawn"
    using in01 by (intro filter_cong refl) auto
  have hi: "filter (\<lambda>(r, x). fl (7 / 10) \<le> x \<and> x < 1) ?drawn = filter (\<lambda>(r, x). \<not> x < fl (7 / 10)) ?drawn"
    using in01 by (intro filter_cong refl) auto
  have neg: "\<not> (\<exists>w \<in> set [fl (7 / 10), fl (3 / 10)]. w < 0)"
    using b(1,2) by auto
  have "randomSplit fl cell_le draws [fl (7 / 10), fl (3 / 10)] 23 wine =
     Inr [wine\<lparr>rows := map fst (filter (\<lambda>(r, x). 0 \<le> x \<and> x < fl (7 / 10)) ?drawn)\<rparr>,
          wine\<lparr>rows := map fst (filter (\<lambda>(r, x). fl (7 / 10) \<le> x \<and> x < 1) ?drawn)\<rparr>]"
    unfolding randomSplit_def Let_def b(3) if_not_P [OF neg] length_sort_rows
    using assms(3,4) by simp
  then show ?thesis
    unfolding train_test_def lo hi by simp
qed

lemma params_value:
  "params = [[(NumTrees, 50), (MaxDepth, 5)], [(NumTrees, 50), (MaxDepth, 10)],
             [(NumTrees, 50), (MaxDepth, 15)], [(NumTrees, 100), (MaxDepth, 5)],
             [(NumTrees, 100), (MaxDepth, 10)], [(NumTrees, 100), (MaxDepth, 15)],
             [(NumTrees, 150), (MaxDepth, 5)], [(NumTrees, 150), (MaxDepth, 10)],
             [(NumTrees, 150), (MaxDepth, 15)]]"
  by (simp add: params_def addGrid_def ParamGridBuilder_def)

lemma length_kFold: "length (kFold fl uid rand nFolds dataset) = nFolds"
  by (simp add: kFold_def Let_def)

lemma length_cv_fit: "length (cv_fit score fl uid rand nFolds epm dataset) = length epm"
  by (simp add: cv_fit_def Let_def)

lemma cv_fit_nth:
  assumes "j < length epm"
  shows "cv_fit score fl uid rand nFolds epm dataset ! j
       = sum_list (map (\<lambda>(train, validation). score (epm ! j) train validation)
                    (kFold fl uid rand nFolds dataset)) / of_nat nFolds"
proof -
  have pick: "map (\<lambda>ms. ms ! j) (map (\<lambda>(train, validation). map (\<lambda>m. score m train validation) epm) folds)
      = map (\<lambda>(train, validation). score (epm ! j) train validation) folds"
    for folds :: "(cell frame \<times> cell frame) list"
    using assms by (induction folds) (simp_all add: case_prod_unfold)
  have "cv_fit score fl uid rand nFolds epm dataset ! j
      = sum_list (map (\<lambda>ms. ms ! j)
          (map (\<lambda>(train, validation). map (\<lambda>m. score m train validation) epm)
             (kFold fl uid rand nFolds dataset))) / of_nat nFolds"
    using assms by (simp add: cv_fit_def Let_def del: map_map)
  then show ?thesis
    by (simp only: pick)
qed

lemma kFold_nth:
  assumes "i < nFolds"
  shows "kFold fl uid rand nFolds dataset ! i =
     (\<lparr>columns = columns dataset @ [uid @ ''_rand''],
       rows = map (\<lambda>(r, x). r @ [DoubleCell x])
                (filter (\<lambda>(r, x). \<not> (fl (of_nat i * fl (1 / of_nat nFolds)) \<le> x \<and>
                                      x < fl (of_nat (i + 1) * fl (1 / of_nat nFolds))))
                   (zip (rows dataset) (map rand [0..<length (rows dataset)])))\<rparr>,
      \<lparr>columns = columns dataset @ [uid @ ''_rand''],
       rows = map (\<lambda>(r, x). r @ [DoubleCell x])
                (filter (\<lambda>(r, x). fl (of_nat i * fl (1 / of_nat nFolds)) \<le> x \<and>
                                   x < fl (of_nat (i + 1) * fl (1 / of_nat nFolds)))
                   (zip (rows dataset) (map rand [0..<length (rows dataset)])))\<rparr>)"
  using assms by (simp add: kFold_def Let_def del: of_nat_add of_nat_Suc)

lemma mset_filter_complement_pair:
  "mset (map g (filter (\<lambda>(r, x). \<not> P r x) zs)) + mset (map g (filter (\<lambda>(r, x). P r x) zs))
     = mset (map g zs)"
  by (induction zs) auto

lemma mset_filter_disjoint:
  assumes "\<forall>z \<in> set zs. \<not> (P z \<and> Q z)"
  shows "mset (map g (filter P zs)) + mset (map g (filter Q zs))
       = mset (map g (filter (\<lambda>z. P z \<or> Q z) zs))"
  using assms by (induction zs) auto

lemma chain_le:
  fixes b :: "nat \<Rightarrow> rat"
  assumes "\<forall>i < n. b i \<le> b (Suc i)"
  shows "b 0 \<le> b n"
  using assms
proof (induction n)
  case 0
  show ?case by simp
next
  case (Suc n)
  then have "b 0 \<le> b n" "b n \<le> b (Suc n)" by simp_all
  then show ?case by simp
qed

lemma mset_intervals:
  fixes b :: "nat \<Rightarrow> rat"
  assumes "\<forall>i < n. b i \<le> b (Suc i)"
  shows "sum_list (map (\<lambda>i. mset (map g (filter (\<lambda>(r, x). b i \<le> x \<and> x < b (Suc i)) zs))) [0..<n])
       = mset (map g (filter (\<lambda>(r, x). b 0 \<le> x \<and> x < b n) zs))"
  using assms
proof (induction n)
  case 0
  have "filter (\<lambda>(r, x). b 0 \<le> x \<and> x < b 0) zs = []"
    by (auto simp: filter_empty_conv)
  then show ?case by simp
next
  case (Suc n)
  from Suc.prems have low: "b 0 \<le> b n"
    by (intro chain_le) simp
  from Suc.prems have step: "b n \<le> b (Suc n)" by simp
  have "sum_list (map (\<lambda>i. mset (map g (filter (\<lambda>(r, x). b i \<le> x \<and> x < b (Suc i)) zs))) [0..<Suc n])
      = mset (map g (filter (\<lambda>(r, x). b 0 \<le> x \<and> x < b n) zs))
        + mset (map g (filter (\<lambda>(r, x). b n \<le> x \<and> x < b (Suc n)) zs))"
    using Suc by simp
  also have "\<dots> = mset (map g (filter (\<lambda>z. (case z of (r, x) \<Rightarrow> b 0 \<le> x \<and> x < b n)
                                         \<or> (case z of (r, x) \<Rightarrow> b n \<le> x \<and> x < b (Suc n))) zs))"
    by (rule mset_filter_disjoint) auto
  also have "\<dots> = mset (map g (filter (\<lambda>(r, x). b 0 \<le> x \<and> x < b (Suc n)) zs))"
    using low step by (intro arg_cong [where f = mset] arg_cong [where f = "map g"] filter_cong refl) auto
  finally show ?case .
qed

lemma kFold_validation_rows:
  "map (\<lambda>(tr, va). mset (rows va)) (kFold fl uid rand nFolds dataset)
      = map (\<lambda>i. mset (map (\<lambda>(r, x). r @ [DoubleCell x])
            (filter (\<lambda>(r, x). fl (of_nat i * fl (1 / of_nat nFolds)) \<le> x
                        \<and> x < fl (of_nat (Suc i) * fl (1 / of_nat nFolds)))
               (zip (rows dataset) (map rand [0..<length (rows dataset)]))))) [0..<nFolds]"
proof (rule nth_equalityI)
  show "length (map (\<lambda>(tr, va). mset (rows va)) (kFold fl uid rand nFolds dataset))
      = length (map (\<lambda>i. mset (map (\<lambda>(r, x). r @ [DoubleCell x])
            (filter (\<lambda>(r, x). fl (of_nat i * fl (1 / of_nat nFolds)) \<le> x
                        \<and> x < fl (of_nat (Suc i) * fl (1 / of_nat nFolds)))
               (zip (rows dataset) (map rand [0..<length (rows dataset)]))))) [0..<nFolds])"
    by (simp add: length_kFold)
next
  fix i
  assume "i < length (map (\<lambda>(tr, va). mset (rows va)) (kFold fl uid rand nFolds dataset))"
  then have i: "i < nFolds" by (simp add: length_kFold)
  have "map (\<lambda>(tr, va). mset (rows va)) (kFold fl uid rand nFolds dataset) ! i
      = (\<lambda>(tr, va). mset (rows va)) (kFold fl uid rand nFolds dataset ! i)"
    using i by (simp add: length_kFold)
  also have "\<dots> = mset (map (\<lambda>(r, x). r @ [DoubleCell x])
            (filter (\<lambda>(r, x). fl (of_nat i * fl (1 / of_nat nFolds)) \<le> x
                        \<and> x < fl (of_nat (Suc i) * fl (1 / of_nat nFolds)))
               (zip (rows dataset) (map rand [0..<length (rows dataset)]))))"
    unfolding kFold_nth [OF i] Suc_eq_plus1 by (simp only: prod.case frame.simps)
  finally show "map (\<lambda>(tr, va). mset (rows va)) (kFold fl uid rand nFolds dataset) ! i
      = map (\<lambda>i. mset (map (\<lambda>(r, x). r @ [DoubleCell x])
            (filter (\<lambda>(r, x). fl (of_nat i * fl (1 / of_nat nFolds)) \<le> x
                        \<and> x < fl (of_nat (Suc i) * fl (1 / of_nat nFolds)))
               (zip (rows dataset) (map rand [0..<length (rows dataset)]))))) [0..<nFolds] ! i"
    using i by simp
qed

lemma fold_bounds_chain:
  fixes fl :: "rat \<Rightarrow> rat"
  assumes "mono fl" and "fl 0 = 0"
  shows "\<forall>i < n. fl (of_nat i * fl (1 / of_nat nFolds)) \<le> fl (of_nat (Suc i) * fl (1 / of_nat nFolds))"
proof (intro allI impI)
  fix i :: nat
  have "fl 0 \<le> fl (1 / of_nat nFolds)"
    using assms(1) by (rule monoD) simp
  then have h0: "0 \<le> fl (1 / of_nat nFolds)"
    by (simp only: assms(2))
  have "(of_nat i :: rat) \<le> of_nat (Suc i)"
    by simp
  then have "of_nat i * fl (1 / of_nat nFolds) \<le> of_nat (Suc i) * fl (1 / of_nat nFolds)"
    using h0 by (rule mult_right_mono)
  with assms(1) show "fl (of_nat i * fl (1 / of_nat nFolds)) \<le> fl (of_nat (Suc i) * fl (1 / of_nat nFolds))"
    by (rule monoD)
qed

lemma filter_unit_interval:
  assumes "\<forall>j. 0 \<le> rand j \<and> rand j < (1::rat)"
  shows "filter (\<lambda>(r, x). 0 \<le> x \<and> x < 1) (zip rs (map rand js)) = zip rs (map rand js)"
  using assms by (auto simp: filter_id_conv in_set_zip)

lemma kFold_validation_parts:
  assumes "mono fl" and "fl 0 = 0" and "fl (of_nat nFolds * fl (1 / of_nat nFolds)) = 1"
    and "\<forall>j. 0 \<le> rand j \<and> rand j < 1"
  shows "sum_list (map (\<lambda>(tr, va). mset (rows va)) (kFold fl uid rand nFolds dataset))
       = mset (map (\<lambda>(r, x). r @ [DoubleCell x])
                 (zip (rows dataset) (map rand [0..<length (rows dataset)])))"
proof -
  define b where "b = (\<lambda>i :: nat. fl (of_nat i * fl (1 / of_nat nFolds)))"
  define zs where "zs = zip (rows dataset) (map rand [0..<length (rows dataset)])"
  define g where "g = (\<lambda>(r :: cell list, x). r @ [DoubleCell x])"
  have chain: "\<forall>i < nFolds. b i \<le> b (Suc i)"
    unfolding b_def by (rule fold_bounds_chain [OF assms(1,2)])
  have b0: "b 0 = 0"
    unfolding b_def by (simp add: assms(2))
  have bn: "b nFolds = 1"
    unfolding b_def by (rule assms(3))
  have "sum_list (map (\<lambda>(tr, va). mset (rows va)) (kFold fl uid rand nFolds dataset))
      = sum_list (map (\<lambda>i. mset (map g (filter (\<lambda>(r, x). b i \<le> x \<and> x < b (Suc i)) zs))) [0..<nFolds])"
    unfolding b_def zs_def g_def by (simp only: kFold_validation_rows)
  also have "\<dots> = mset (map g (filter (\<lambda>(r, x). b 0 \<le> x \<and> x < b nFolds) zs))"
    using chain by (rule mset_intervals)
  also have "\<dots> = mset (map g zs)"
    unfolding b0 bn zs_def by (simp only: filter_unit_interval [OF assms(4)])
  finally show ?thesis
    unfolding zs_def g_def .
qed

subsection \<open>The word count\<close>

text \<open>
  Claim C1. For every corpus, whatever its partitions, the hash of the engine and the
  order in which shuffled pairs arrive, the word count (lowercase each line, split it at
  white space, pair each token with 1, reduce by key with addition) holds for every token
  of the lowercased, split corpus exactly one pair, the token with the number of its
  occurrences, and holds no pair for any other token: the pairs of the result whose key is
  \<open>t\<close> are the single pair \<open>(t, count)\<close> when \<open>t\<close> occurs and none otherwise.
\<close>

theorem wordCount_counts:
  assumes "\<And>xs. mset (arrive xs) = mset xs"
  shows "filter (\<lambda>kv. fst kv = t) (collect (wordCount lower space h arrive lyrics))
       = (if t \<in> set (tokens lower space lyrics)
          then [(t, int (count_list (tokens lower space lyrics) t))] else [])"
proof -
  have "filter (\<lambda>kv. fst kv = t) (collect (wordCount lower space h arrive lyrics))
      = one_pair t (reduce_values (\<lambda>x y. add x y)
          (vals t (collect (lyrics_pairs (lyrics_words space (lyrics_lower lower lyrics))))))"
    unfolding wordCount_def
    by (rule reduceByKey_key [OF _ _ assms]) (simp_all add: add_def)
  also have "\<dots> = one_pair t (if count_list (tokens lower space lyrics) t = 0 then None
                              else Some (int (count_list (tokens lower space lyrics) t)))"
    by (simp only: collect_lyrics_pairs vals_ones reduce_values_ones)
  finally show ?thesis
    by (simp add: one_pair_def count_list_0_iff)
qed

theorem wordCount_counts_witness:
  "(\<forall>xs :: (string \<times> int) list. mset (rev xs) = mset xs) \<and>
   filter (\<lambda>kv. fst kv = ''ninja'')
     (collect (wordCount ascii_lower ascii_space (\<lambda>s. int (length s)) rev
        [[''Teenage Mutant Ninja Turtles'', ''teenage  mutant''], [''Ninja Power'']]))
   = [(''ninja'', 2)] \<and>
   filter (\<lambda>kv. fst kv = ''Ninja'')
     (collect (wordCount ascii_lower ascii_space (\<lambda>s. int (length s)) rev
        [[''Teenage Mutant Ninja Turtles'', ''teenage  mutant''], [''Ninja Power'']]))
   = []"
proof -
  have toks: "tokens ascii_lower ascii_space
        [[''Teenage Mutant Ninja Turtles'', ''teenage  mutant''], [''Ninja Power'']]
      = [''teenage'', ''mutant'', ''ninja'', ''turtles'', ''teenage'', ''mutant'', ''ninja'', ''power'']"
    by code_simp
  have perm: "\<And>xs :: (string \<times> int) list. mset (rev xs) = mset xs"
    by simp
  show ?thesis
    using wordCount_counts [OF perm, of "''ninja''" ascii_lower ascii_space "\<lambda>s. int (length s)"
        "[[''Teenage Mutant Ninja Turtles'', ''teenage  mutant''], [''Ninja Power'']]"]
      wordCount_counts [OF perm, of "''Ninja''" ascii_lower ascii_space "\<lambda>s. int (length s)"
        "[[''Teenage Mutant Ninja Turtles'', ''teenage  mutant''], [''Ninja Power'']]"]
    by (simp add: toks)
qed

lemma foldl_add_sum: "foldl (\<lambda>x y. add x y) a vs = a + sum_list vs"
  by (induction vs arbitrary: a) (simp_all add: add_def)

lemma reduce_values_add:
  "reduce_values (\<lambda>x y. add x y) vs = (if vs = [] then None else Some (sum_list vs))"
  by (cases vs) (simp_all add: foldl_add_sum)

lemma vals_empty_iff: "vals k xs = [] \<longleftrightarrow> k \<notin> fst ` set xs"
  by (auto simp: vals_def filter_empty_conv)

text \<open>
  Claim C10. The function given to \<^verbatim>\<open>reduceByKey\<close>, \<^verbatim>\<open>lambda x,y: x+y\<close> on integers,
  is commutative and associative. Consequently the result does not depend on how the pairs
  are spread over partitions, on the number of reduce partitions, on the hash, or on the
  order in which values of a key meet: two collections that hold the same pairs reduce to
  the same pairs, each key once with the sum of its values.
\<close>

theorem reduceByKey_add_any_partitioning:
  assumes "\<And>xs. mset (arrive xs) = mset xs" and "\<And>xs. mset (arrive' xs) = mset xs"
    and "numPartitions \<noteq> Some 0" and "numPartitions' \<noteq> Some 0"
    and "mset (collect r) = mset (collect r')"
  shows "(\<forall>x y. add x y = add y x) \<and> (\<forall>x y z. add (add x y) z = add x (add y z)) \<and>
     (\<forall>k. filter (\<lambda>kv. fst kv = k) (collect (reduceByKey (\<lambda>x y. add x y) numPartitions h arrive r))
          = (if k \<in> fst ` set (collect r) then [(k, sum_list (vals k (collect r)))] else [])) \<and>
     mset (collect (reduceByKey (\<lambda>x y. add x y) numPartitions h arrive r))
       = mset (collect (reduceByKey (\<lambda>x y. add x y) numPartitions' h' arrive' r'))"
proof -
  have comm: "\<And>x y. add x y = add y x" and assoc: "\<And>x y z. add (add x y) z = add x (add y z)"
    by (simp_all add: add_def)
  have key: "filter (\<lambda>kv. fst kv = k) (collect (reduceByKey (\<lambda>x y. add x y) numPartitions h arrive r))
          = one_pair k (reduce_values (\<lambda>x y. add x y) (vals k (collect r)))" for k
    by (rule reduceByKey_key [OF comm assoc assms(1) assms(3)])
  have key': "filter (\<lambda>kv. fst kv = k) (collect (reduceByKey (\<lambda>x y. add x y) numPartitions' h' arrive' r'))
          = one_pair k (reduce_values (\<lambda>x y. add x y) (vals k (collect r')))" for k
    by (rule reduceByKey_key [OF comm assoc assms(2) assms(4)])
  have same: "reduce_values (\<lambda>x y. add x y) (vals k (collect r))
            = reduce_values (\<lambda>x y. add x y) (vals k (collect r'))" for k
    by (rule reduce_values_mset [OF comm assoc vals_mset [OF assms(5)]])
  have sums: "\<forall>k. filter (\<lambda>kv. fst kv = k) (collect (reduceByKey (\<lambda>x y. add x y) numPartitions h arrive r))
          = (if k \<in> fst ` set (collect r) then [(k, sum_list (vals k (collect r)))] else [])"
    by (simp add: key reduce_values_add one_pair_def vals_empty_iff)
  have "mset (collect (reduceByKey (\<lambda>x y. add x y) numPartitions h arrive r))
       = mset (collect (reduceByKey (\<lambda>x y. add x y) numPartitions' h' arrive' r'))"
    by (rule same_keys_same_mset) (simp only: key key' same)
  with comm assoc sums show ?thesis by blast
qed

theorem reduceByKey_add_any_partitioning_witness:
  "(\<forall>xs :: (string \<times> int) list. mset (rev xs) = mset xs) \<and>
   (\<forall>xs :: (string \<times> int) list. mset (rotate1 xs) = mset xs) \<and>
   (None :: nat option) \<noteq> Some 0 \<and> Some (3::nat) \<noteq> Some 0 \<and>
   mset (collect [[(''a'', 1::int), (''b'', 1)], [(''a'', 1), (''c'', 1), (''a'', 1)]])
     = mset (collect [[(''c'', 1)], [], [(''a'', 1), (''a'', 1)], [(''b'', 1), (''a'', 1)]]) \<and>
   mset (collect (reduceByKey (\<lambda>x y. add x y) None (\<lambda>s. int (length s)) rev
           [[(''a'', 1), (''b'', 1)], [(''a'', 1), (''c'', 1), (''a'', 1)]]))
     = mset (collect (reduceByKey (\<lambda>x y. add x y) (Some 3) (\<lambda>s. 7) rotate1
           [[(''c'', 1)], [], [(''a'', 1), (''a'', 1)], [(''b'', 1), (''a'', 1)]])) \<and>
   filter (\<lambda>kv. fst kv = ''a'') (collect (reduceByKey (\<lambda>x y. add x y) None (\<lambda>s. int (length s)) rev
           [[(''a'', 1), (''b'', 1)], [(''a'', 1), (''c'', 1), (''a'', 1)]])) = [(''a'', 3)]"
proof -
  have p1: "\<And>xs :: (string \<times> int) list. mset (rev xs) = mset xs" by simp
  have p2: "mset (rotate1 xs) = mset xs" for xs :: "(string \<times> int) list"
    by (cases xs) simp_all
  have n1: "(None :: nat option) \<noteq> Some 0" by simp
  have n2: "Some (3::nat) \<noteq> Some 0" by simp
  have m: "mset (collect [[(''a'', 1::int), (''b'', 1)], [(''a'', 1), (''c'', 1), (''a'', 1)]])
     = mset (collect [[(''c'', 1)], [], [(''a'', 1), (''a'', 1)], [(''b'', 1), (''a'', 1)]])"
    by (simp add: collect_def)
  show ?thesis
    using reduceByKey_add_any_partitioning [OF p1 p2 n1 n2 m, of "\<lambda>s. int (length s)" "\<lambda>s. 7"]
      p1 p2 m
    by (simp add: vals_def collect_def)
qed



text \<open>
  Claim C2. The duplicate check raises an assertion error if and only if the loaded wine
  data has a duplicate row, that is, if and only if the row count before removing
  duplicates differs from the row count after; when all rows are distinct the check passes
  and leaves the dataframe as it is. It is the one assertion of the program: the run from
  reading the file to the rename ends in an assertion error exactly when the file was read
  and its rows are not distinct.
\<close>

theorem check_duplicates_iff:
  "(check_duplicates wine = Inl AssertionError \<longleftrightarrow> \<not> distinct (rows wine)) \<and>
   (\<not> distinct (rows wine) \<longleftrightarrow> df_count wine \<noteq> df_count (dropDuplicates wine)) \<and>
   (distinct (rows wine) \<longrightarrow> check_duplicates wine = Inr wine) \<and>
   (prepare_wine tokenize cell_of file = Inl AssertionError \<longleftrightarrow>
      (\<exists>w. read_wine tokenize cell_of file = Inr w \<and> \<not> distinct (rows w)))"
proof -
  have b: "distinct (rows wine) \<longrightarrow> check_duplicates wine = Inr wine"
    by (simp add: check_duplicates_def count_dropDuplicates)
  have c: "prepare_wine tokenize cell_of file = Inl AssertionError \<longleftrightarrow>
      (\<exists>w. read_wine tokenize cell_of file = Inr w \<and> \<not> distinct (rows w))"
  proof (cases "read_wine tokenize cell_of file")
    case (Inl e)
    with read_wine_error [of tokenize cell_of "file"] show ?thesis
      by (simp add: prepare_wine_def)
  next
    case (Inr w)
    then show ?thesis
      using check_duplicates_raises [of w]
      by (cases "check_duplicates w") (auto simp: prepare_wine_def dest: check_duplicates_error)
  qed
  from check_duplicates_raises [of wine] b c show ?thesis
    by (simp add: count_dropDuplicates)
qed

theorem check_duplicates_iff_witness:
  "distinct (rows \<lparr>columns = [''target'', ''alcohol''], rows = [[1, 14], [1, 13], [2, 14 :: int]]\<rparr>) \<and>
   check_duplicates \<lparr>columns = [''target'', ''alcohol''], rows = [[1, 14], [1, 13], [2, 14 :: int]]\<rparr>
     = Inr \<lparr>columns = [''target'', ''alcohol''], rows = [[1, 14], [1, 13], [2, 14]]\<rparr> \<and>
   \<not> distinct (rows \<lparr>columns = [''target'', ''alcohol''], rows = [[1, 14], [1, 13], [1, 14 :: int]]\<rparr>) \<and>
   check_duplicates \<lparr>columns = [''target'', ''alcohol''], rows = [[1, 14], [1, 13], [1, 14 :: int]]\<rparr>
     = Inl AssertionError"
  using check_duplicates_iff [of "\<lparr>columns = [''target'', ''alcohol''], rows = [[1, 14], [1, 13], [2, 14 :: int]]\<rparr>"
      comma_fields "\<lambda>s. s" "[]"]
    check_duplicates_iff [of "\<lparr>columns = [''target'', ''alcohol''], rows = [[1, 14], [1, 13], [1, 14 :: int]]\<rparr>"
      comma_fields "\<lambda>s. s" "[]"]
  by simp

text \<open>
  Claim C3. The wine data is read without a header: every line of the file, the first
  included, is a row, and the columns get exactly the 14 names of \<open>colNames\<close>, the label
  \<^verbatim>\<open>target\<close> first and 13 feature columns after it. The label of a row is the first
  field of its line, so with a file whose labels are among three classes the \<^verbatim>\<open>target\<close>
  column takes one of these three values. The file is the input: its lines have 14 fields
  and labels of three classes.
\<close>

theorem read_wine_headerless:
  assumes "file \<noteq> []"
    and "\<forall>l \<in> set file. length (tokenize l) = 14"
    and "card classes = 3"
    and "\<forall>l \<in> set file. cell_of (tokenize l ! 0) \<in> classes"
  shows "\<exists>wine. read_wine tokenize cell_of file = Inr wine \<and>
           columns wine = colNames \<and> length (columns wine) = 14 \<and>
           columns wine ! 0 = ''target'' \<and> length (drop 1 (columns wine)) = 13 \<and>
           ''target'' \<notin> set (drop 1 (columns wine)) \<and>
           rows wine = map (\<lambda>l. map cell_of (tokenize l)) file \<and>
           df_count wine = length file \<and>
           rows wine ! 0 = map cell_of (tokenize (file ! 0)) \<and>
           (\<forall>r \<in> set (rows wine). length r = 14 \<and> r ! 0 \<in> classes)"
proof -
  obtain l ls where fl: "file = l # ls"
    using assms(1) by (cases "file") auto
  with assms(2) have "length (tokenize l) = 14" by simp
  then have "read_wine tokenize cell_of file
      = Inr \<lparr>columns = colNames, rows = map (\<lambda>x. map cell_of (tokenize x)) file\<rparr>"
    by (simp add: read_wine_def read_csv_def toDF_def fl default_names_def length_colNames)
  moreover have "colNames ! 0 = ''target''" "length (drop 1 colNames) = 13"
    "''target'' \<notin> set (drop 1 colNames)"
    by (simp_all add: colNames_def)
  moreover have "\<forall>r \<in> set (map (\<lambda>x. map cell_of (tokenize x)) (l # ls)). length r = 14 \<and> r ! 0 \<in> classes"
    using assms(2,4) by (auto simp: fl)
  ultimately show ?thesis
    by (auto simp: df_count_def length_colNames fl simp del: One_nat_def)
qed

theorem read_wine_headerless_witness:
  "[''1,14.23,1.71,2.43,15.6,127,2.8,3.06,.28,2.29,5.64,1.04,3.92,1065'',
    ''2,12.37,.94,1.36,10.6,88,1.98,.57,.28,.42,1.95,1.05,1.82,520'',
    ''3,12.86,1.35,2.32,18,122,1.51,1.25,.21,.94,4.1,.76,1.29,630''] \<noteq> [] \<and>
   list_all (\<lambda>l. length (comma_fields l) = 14)
     [''1,14.23,1.71,2.43,15.6,127,2.8,3.06,.28,2.29,5.64,1.04,3.92,1065'',
      ''2,12.37,.94,1.36,10.6,88,1.98,.57,.28,.42,1.95,1.05,1.82,520'',
      ''3,12.86,1.35,2.32,18,122,1.51,1.25,.21,.94,4.1,.76,1.29,630''] \<and>
   card {''1'', ''2'', ''3''} = 3 \<and>
   list_all (\<lambda>l. comma_fields l ! 0 \<in> {''1'', ''2'', ''3''})
     [''1,14.23,1.71,2.43,15.6,127,2.8,3.06,.28,2.29,5.64,1.04,3.92,1065'',
      ''2,12.37,.94,1.36,10.6,88,1.98,.57,.28,.42,1.95,1.05,1.82,520'',
      ''3,12.86,1.35,2.32,18,122,1.51,1.25,.21,.94,4.1,.76,1.29,630''] \<and>
   (\<exists>wine. read_wine comma_fields (\<lambda>s. s)
        [''1,14.23,1.71,2.43,15.6,127,2.8,3.06,.28,2.29,5.64,1.04,3.92,1065'',
         ''2,12.37,.94,1.36,10.6,88,1.98,.57,.28,.42,1.95,1.05,1.82,520'',
         ''3,12.86,1.35,2.32,18,122,1.51,1.25,.21,.94,4.1,.76,1.29,630''] = Inr wine \<and>
      columns wine = colNames \<and> df_count wine = 3 \<and>
      rows wine ! 0 = [''1'', ''14.23'', ''1.71'', ''2.43'', ''15.6'', ''127'', ''2.8'', ''3.06'',
                       ''.28'', ''2.29'', ''5.64'', ''1.04'', ''3.92'', ''1065''])"
proof -
  let ?file = "[''1,14.23,1.71,2.43,15.6,127,2.8,3.06,.28,2.29,5.64,1.04,3.92,1065'',
    ''2,12.37,.94,1.36,10.6,88,1.98,.57,.28,.42,1.95,1.05,1.82,520'',
    ''3,12.86,1.35,2.32,18,122,1.51,1.25,.21,.94,4.1,.76,1.29,630'']"
  have f1: "comma_fields ''1,14.23,1.71,2.43,15.6,127,2.8,3.06,.28,2.29,5.64,1.04,3.92,1065''
      = [''1'', ''14.23'', ''1.71'', ''2.43'', ''15.6'', ''127'', ''2.8'', ''3.06'',
         ''.28'', ''2.29'', ''5.64'', ''1.04'', ''3.92'', ''1065'']"
    by code_simp
  have f2: "comma_fields ''2,12.37,.94,1.36,10.6,88,1.98,.57,.28,.42,1.95,1.05,1.82,520''
      = [''2'', ''12.37'', ''.94'', ''1.36'', ''10.6'', ''88'', ''1.98'', ''.57'',
         ''.28'', ''.42'', ''1.95'', ''1.05'', ''1.82'', ''520'']"
    by code_simp
  have f3: "comma_fields ''3,12.86,1.35,2.32,18,122,1.51,1.25,.21,.94,4.1,.76,1.29,630''
      = [''3'', ''12.86'', ''1.35'', ''2.32'', ''18'', ''122'', ''1.51'', ''1.25'',
         ''.21'', ''.94'', ''4.1'', ''.76'', ''1.29'', ''630'']"
    by code_simp
  have ne: "?file \<noteq> []" by simp
  have len: "\<forall>l \<in> set ?file. length (comma_fields l) = 14"
    by (simp add: f1 f2 f3)
  have card: "card {''1'', ''2'', ''3''} = 3" by simp
  have cls: "\<forall>l \<in> set ?file. (\<lambda>s. s) (comma_fields l ! 0) \<in> {''1'', ''2'', ''3''}"
    by (simp add: f1 f2 f3)
  from read_wine_headerless [OF ne len card cls]
  obtain wine where w: "read_wine comma_fields (\<lambda>s. s) ?file = Inr wine"
    "columns wine = colNames" "df_count wine = length ?file"
    "rows wine ! 0 = map (\<lambda>s. s) (comma_fields (?file ! 0))"
    by blast
  from w(3) have "df_count wine = 3" by simp
  moreover from w(4) have "rows wine ! 0 = [''1'', ''14.23'', ''1.71'', ''2.43'', ''15.6'', ''127'', ''2.8'', ''3.06'',
                       ''.28'', ''2.29'', ''5.64'', ''1.04'', ''3.92'', ''1065'']"
    by (simp add: f1)
  ultimately have "\<exists>wine. read_wine comma_fields (\<lambda>s. s) ?file = Inr wine \<and>
      columns wine = colNames \<and> df_count wine = 3 \<and>
      rows wine ! 0 = [''1'', ''14.23'', ''1.71'', ''2.43'', ''15.6'', ''127'', ''2.8'', ''3.06'',
                       ''.28'', ''2.29'', ''5.64'', ''1.04'', ''3.92'', ''1065'']"
    using w(1,2) by blast
  with ne len card cls show ?thesis by (simp add: list_all_iff)
qed

text \<open>
  Claim C7. Renaming \<^verbatim>\<open>od280_od315_of_diluted_wines\<close> to \<^verbatim>\<open>od280\<close> changes that
  column's name only: the rows (every cell, in order) and the row count are unchanged, the
  number and order of the columns are unchanged, and every other column keeps its name. On
  the wine columns the result is the same list with position 12 renamed.
\<close>

theorem rename_od280_only_name:
  "rows (rename_od280 wine) = rows wine \<and>
   df_count (rename_od280 wine) = df_count wine \<and>
   length (columns (rename_od280 wine)) = length (columns wine) \<and>
   (\<forall>i < length (columns wine).
      columns (rename_od280 wine) ! i =
        (if columns wine ! i = ''od280_od315_of_diluted_wines'' then ''od280'' else columns wine ! i)) \<and>
   (columns wine = colNames \<longrightarrow>
      columns (rename_od280 wine) = colNames[12 := ''od280''] \<and>
      (\<forall>i < 14. i \<noteq> 12 \<longrightarrow> columns (rename_od280 wine) ! i = columns wine ! i))"
proof -
  have "map (\<lambda>c. if c = ''od280_od315_of_diluted_wines'' then ''od280'' else c) colNames
      = colNames[12 := ''od280'']"
    by (simp add: colNames_def)
  moreover have "length colNames = 14"
    by (simp add: colNames_def)
  ultimately show ?thesis
    by (auto simp: rename_od280_def withColumnRenamed_def df_count_def nth_list_update)
qed

theorem rename_od280_only_name_witness:
  "columns \<lparr>columns = colNames, rows = [[1 :: int, 14, 2, 2, 16, 127, 3, 3, 0, 2, 6, 1, 4, 1065]]\<rparr> = colNames \<and>
   columns (rename_od280 \<lparr>columns = colNames, rows = [[1 :: int, 14, 2, 2, 16, 127, 3, 3, 0, 2, 6, 1, 4, 1065]]\<rparr>)
     = [''target'', ''alcohol'', ''malic_acid'', ''ash'', ''alcalinity_of_ash'', ''magnesium'',
        ''total_phenols'', ''flavanoids'', ''nonflavanoid_phenols'', ''proanthocyanins'',
        ''color_intensity'', ''hue'', ''od280'', ''proline''] \<and>
   rows (rename_od280 \<lparr>columns = colNames, rows = [[1 :: int, 14, 2, 2, 16, 127, 3, 3, 0, 2, 6, 1, 4, 1065]]\<rparr>)
     = [[1, 14, 2, 2, 16, 127, 3, 3, 0, 2, 6, 1, 4, 1065]]"
  using rename_od280_only_name [of "\<lparr>columns = colNames, rows = [[1 :: int, 14, 2, 2, 16, 127, 3, 3, 0, 2, 6, 1, 4, 1065]]\<rparr>"]
  by (simp add: colNames_def)

text \<open>
  Claim C9. The SQL query on the registered view and the DataFrame chain (select, groupBy,
  agg, orderBy) compute the same result for every dataframe, whatever the average and the
  rounding return: the same error when \<^verbatim>\<open>target\<close> or \<^verbatim>\<open>alcohol\<close> does not name
  one column, and otherwise the same table, one row per target value with the rounded
  average of its alcohol values, ordered by target.
\<close>

theorem sql_and_api_agree:
  "sql_avgAlcohol avg rnd (createOrReplaceTempView ''wine'' wine catalog) = api_avgAlcohol avg rnd wine \<and>
   (\<forall>t a. resolve ''target'' (columns wine) = Inr t \<and> resolve ''alcohol'' (columns wine) = Inr a \<longrightarrow>
      api_avgAlcohol avg rnd wine =
        Inr \<lparr>columns = [''target'', ''avgAlcohol''],
             rows = sort_key (\<lambda>r. r ! 0)
                      (map (\<lambda>g. [g, rnd (avg (map (\<lambda>r. r ! a) (filter (\<lambda>r. r ! t = g) (rows wine)))) 2])
                           (remdups (map (\<lambda>r. r ! t) (rows wine))))\<rparr>)"
proof -
  have view: "createOrReplaceTempView ''wine'' wine catalog ''wine'' = Some wine"
    by (simp add: createOrReplaceTempView_def)
  have eq: "sql_avgAlcohol avg rnd (createOrReplaceTempView ''wine'' wine catalog)
          = api_avgAlcohol avg rnd wine"
  proof (rule resolve_cases [of "''target''" "columns wine"])
    assume "resolve ''target'' (columns wine) = Inl AnalysisException"
    then show ?thesis
      by (simp add: sql_avgAlcohol_def api_avgAlcohol_def view select_target_alcohol group_agg_def)
  next
    fix t
    assume t: "resolve ''target'' (columns wine) = Inr t"
    show ?thesis
    proof (rule resolve_cases [of "''alcohol''" "columns wine"])
      assume "resolve ''alcohol'' (columns wine) = Inl AnalysisException"
      with t show ?thesis
        by (simp add: sql_avgAlcohol_def api_avgAlcohol_def view select_target_alcohol group_agg_def)
    next
      fix a
      assume "resolve ''alcohol'' (columns wine) = Inr a"
      with t show ?thesis
        by (simp add: sql_avgAlcohol_def api_avgAlcohol_def view select_target_alcohol
            group_agg_selected)
    qed
  qed
  have "resolve ''target'' [''target'', ''avgAlcohol''] = Inr 0"
    by (simp add: resolve_def)
  then have "\<forall>t a. resolve ''target'' (columns wine) = Inr t \<and> resolve ''alcohol'' (columns wine) = Inr a \<longrightarrow>
      api_avgAlcohol avg rnd wine =
        Inr \<lparr>columns = [''target'', ''avgAlcohol''],
             rows = sort_key (\<lambda>r. r ! 0)
                      (map (\<lambda>g. [g, rnd (avg (map (\<lambda>r. r ! a) (filter (\<lambda>r. r ! t = g) (rows wine)))) 2])
                           (remdups (map (\<lambda>r. r ! t) (rows wine))))\<rparr>"
    by (simp add: eq [symmetric] sql_avgAlcohol_def view group_agg_def orderBy_def)
  with eq show ?thesis by blast
qed

theorem sql_and_api_agree_witness:
  "resolve ''target'' (columns \<lparr>columns = [''target'', ''alcohol'', ''ash''],
       rows = [[2, 12, 0], [1, 14, 0], [2, 13, 1], [1, 29 / 2, 2], [3, 1001 / 100, 4 :: rat]]\<rparr>) = Inr 0 \<and>
   resolve ''alcohol'' (columns \<lparr>columns = [''target'', ''alcohol'', ''ash''],
       rows = [[2, 12, 0], [1, 14, 0], [2, 13, 1], [1, 29 / 2, 2], [3, 1001 / 100, 4 :: rat]]\<rparr>) = Inr 1 \<and>
   sql_avgAlcohol exact_avg half_up (createOrReplaceTempView ''wine'' \<lparr>columns = [''target'', ''alcohol'', ''ash''],
       rows = [[2, 12, 0], [1, 14, 0], [2, 13, 1], [1, 29 / 2, 2], [3, 1001 / 100, 4 :: rat]]\<rparr> Map.empty)
     = Inr \<lparr>columns = [''target'', ''avgAlcohol''], rows = [[1, 57 / 4], [2, 25 / 2], [3, 1001 / 100]]\<rparr> \<and>
   api_avgAlcohol exact_avg half_up \<lparr>columns = [''target'', ''alcohol'', ''ash''],
       rows = [[2, 12, 0], [1, 14, 0], [2, 13, 1], [1, 29 / 2, 2], [3, 1001 / 100, 4 :: rat]]\<rparr>
     = Inr \<lparr>columns = [''target'', ''avgAlcohol''], rows = [[1, 57 / 4], [2, 25 / 2], [3, 1001 / 100]]\<rparr>"
proof -
  have t: "resolve ''target'' [''target'', ''alcohol'', ''ash''] = Inr 0"
    and a: "resolve ''alcohol'' [''target'', ''alcohol'', ''ash''] = Inr 1"
    by (simp_all add: resolve_def)
  have r1: "half_up (exact_avg [14, 29 / 2]) 2 = 57 / 4"
    and r2: "half_up (exact_avg [12, 13]) 2 = 25 / 2"
    and r3: "half_up (exact_avg [1001 / 100]) 2 = 1001 / 100"
    by code_simp+
  show ?thesis
    using sql_and_api_agree [of exact_avg half_up "\<lparr>columns = [''target'', ''alcohol'', ''ash''],
       rows = [[2, 12, 0], [1, 14, 0], [2, 13, 1], [1, 29 / 2, 2], [3, 1001 / 100, 4 :: rat]]\<rparr>" Map.empty]
    by (simp add: t a r1 r2 r3)
qed

text \<open>
  Claim C5. The input columns of the assembler are the columns of the (renamed) wine
  dataframe without the first one: the 13 feature columns in column order, \<^verbatim>\<open>target\<close>
  not among them. On a dataframe with these columns the \<^verbatim>\<open>features\<close> cell of a row is
  the vector of the row's cells from the second on, as doubles, in column order; a null
  among them is an error.
\<close>

theorem assembler_features:
  assumes "columns wine = colNames[12 := ''od280'']"
    and "columns df = columns wine"
    and "\<forall>r \<in> set (rows df). length r = 14"
  shows "inputCols (assembler wine) = drop 1 (columns wine) \<and>
     inputCols (assembler wine) =
       [''alcohol'', ''malic_acid'', ''ash'', ''alcalinity_of_ash'', ''magnesium'',
        ''total_phenols'', ''flavanoids'', ''nonflavanoid_phenols'', ''proanthocyanins'',
        ''color_intensity'', ''hue'', ''od280'', ''proline''] \<and>
     length (inputCols (assembler wine)) = 13 \<and>
     ''target'' \<notin> set (inputCols (assembler wine)) \<and>
     outputCol (assembler wine) = ''features'' \<and>
     ((\<forall>r \<in> set (rows df). Null \<notin> set (drop 1 r)) \<longrightarrow>
        assembler_transform (assembler wine) df =
          Inr \<lparr>columns = columns df @ [''features''],
               rows = map (\<lambda>r. map Plain r @ [Features (map (\<lambda>c. the (to_double c)) (drop 1 r))])
                        (rows df)\<rparr>) \<and>
     ((\<exists>r \<in> set (rows df). Null \<in> set (drop 1 r)) \<longrightarrow>
        assembler_transform (assembler wine) df = Inl SparkException)"
proof -
  have names: "drop 1 (colNames[12 := ''od280'']) =
       [''alcohol'', ''malic_acid'', ''ash'', ''alcalinity_of_ash'', ''magnesium'',
        ''total_phenols'', ''flavanoids'', ''nonflavanoid_phenols'', ''proanthocyanins'',
        ''color_intensity'', ''hue'', ''od280'', ''proline'']"
    by (simp add: colNames_def)
  note shape = assembler_transform_wine [OF assms]
  have "(\<forall>r \<in> set (rows df). Null \<notin> set (drop 1 r)) \<longrightarrow>
        assembler_transform (assembler wine) df =
          Inr \<lparr>columns = columns df @ [''features''],
               rows = map (\<lambda>r. map Plain r @ [Features (map (\<lambda>c. the (to_double c)) (drop 1 r))])
                        (rows df)\<rparr>"
    unfolding shape by (simp del: One_nat_def)
  moreover have "(\<exists>r \<in> set (rows df). Null \<in> set (drop 1 r)) \<longrightarrow>
        assembler_transform (assembler wine) df = Inl SparkException"
    unfolding shape by simp
  moreover have "inputCols (assembler wine) = drop 1 (columns wine)"
    "outputCol (assembler wine) = ''features''"
    by (simp_all add: assembler_def)
  ultimately show ?thesis
    by (simp add: assms(1) names del: One_nat_def)
qed

theorem assembler_features_witness:
  "columns (rename_od280 wine_head) = colNames[12 := ''od280''] \<and>
   list_all (\<lambda>r. length r = 14) (rows (rename_od280 wine_head)) \<and>
   list_all (\<lambda>r. Null \<notin> set (drop 1 r)) (rows (rename_od280 wine_head)) \<and>
   assembler_transform (assembler (rename_od280 wine_head)) (rename_od280 wine_head)
   = Inr \<lparr>columns = colNames[12 := ''od280''] @ [''features''],
          rows = [map Plain (rows wine_head ! 0) @
                    [Features [1423 / 100, 171 / 100, 243 / 100, 156 / 10, 127, 28 / 10, 306 / 100,
                       28 / 100, 229 / 100, 564 / 100, 104 / 100, 392 / 100, 1065]],
                  map Plain (rows wine_head ! 1) @
                    [Features [132 / 10, 178 / 100, 214 / 100, 112 / 10, 100, 265 / 100, 276 / 100,
                       26 / 100, 128 / 100, 438 / 100, 105 / 100, 34 / 10, 1050]]]\<rparr>"
proof -
  have c: "columns (rename_od280 wine_head) = colNames[12 := ''od280'']"
    by (simp add: rename_od280_def withColumnRenamed_def wine_head_def colNames_def)
  have r: "rows (rename_od280 wine_head) = rows wine_head"
    by (simp add: rename_od280_def withColumnRenamed_def)
  have l: "\<forall>r \<in> set (rows (rename_od280 wine_head)). length r = 14"
    unfolding r by (simp add: wine_head_def)
  have n: "\<forall>r \<in> set (rows (rename_od280 wine_head)). Null \<notin> set (drop 1 r)"
    unfolding r by (simp add: wine_head_def)
  from assembler_features [OF c refl l] n
  have "assembler_transform (assembler (rename_od280 wine_head)) (rename_od280 wine_head) =
          Inr \<lparr>columns = columns (rename_od280 wine_head) @ [''features''],
               rows = map (\<lambda>r. map Plain r @ [Features (map (\<lambda>c. the (to_double c)) (drop 1 r))])
                        (rows (rename_od280 wine_head))\<rparr>"
    by blast
  also have "\<dots> = Inr \<lparr>columns = colNames[12 := ''od280''] @ [''features''],
          rows = [map Plain (rows wine_head ! 0) @
                    [Features [1423 / 100, 171 / 100, 243 / 100, 156 / 10, 127, 28 / 10, 306 / 100,
                       28 / 100, 229 / 100, 564 / 100, 104 / 100, 392 / 100, 1065]],
                  map Plain (rows wine_head ! 1) @
                    [Features [132 / 10, 178 / 100, 214 / 100, 112 / 10, 100, 265 / 100, 276 / 100,
                       26 / 100, 128 / 100, 438 / 100, 105 / 100, 34 / 10, 1050]]]\<rparr>"
    unfolding c r by (simp add: wine_head_def)
  finally show ?thesis
    using c l n by (simp only: list_all_iff)
qed

text \<open>
  Claim C4. The split with weights 0.7 and 0.3 and seed 23 puts every row in exactly one
  of the two subsets: of the rows in the engine's sorted order, the training rows are those
  whose draw is below the double 0.7 and the test rows the others, so the two subsets
  together are the rows of the data, and they are disjoint when the rows are distinct. The
  pipeline is fitted on the training subset only: the trained model is what the learner
  returns on the assembled training rows (each with its feature vector), two runs with the
  same training subset give the same model whatever their test subsets are, and the two
  scores are the evaluations of that model's predictions on the assembled training rows
  and on the assembled test rows.
\<close>

theorem split_then_fit_on_train:
  assumes "mono fl" and "fl 0 = 0" and "\<forall>x. fl (fl x) = fl x"
    and "fl (fl (7 / 10) + fl (3 / 10)) = 1"
    and "\<forall>j. 0 \<le> draws 23 j \<and> draws 23 j < 1"
    and "columns wine = colNames[12 := ''od280'']"
    and "\<forall>r \<in> set (rows wine). length r = 14 \<and> Null \<notin> set (drop 1 r)"
  shows "\<exists>train test. train_test fl draws wine = Inr (train, test) \<and>
     columns train = columns wine \<and> columns test = columns wine \<and>
     rows train = map fst (filter (\<lambda>(r, x). x < fl (7 / 10))
                    (zip (sort_rows cell_le (rows wine)) (map (draws 23) [0..<length (rows wine)]))) \<and>
     rows test = map fst (filter (\<lambda>(r, x). \<not> x < fl (7 / 10))
                    (zip (sort_rows cell_le (rows wine)) (map (draws 23) [0..<length (rows wine)]))) \<and>
     mset (rows train) + mset (rows test) = mset (rows wine) \<and>
     (distinct (rows wine) \<longrightarrow> set (rows train) \<inter> set (rows test) = {}) \<and>
     pipeModel rf_fit fl draws wine =
       Inr (rf_fit rfModel
              \<lparr>columns = columns wine @ [''features''],
               rows = map (\<lambda>r. map Plain r @ [Features (map (\<lambda>c. the (to_double c)) (drop 1 r))])
                        (rows train)\<rparr>) \<and>
     fit_and_score rf_fit rf_transform evaluate fl draws wine =
       Inr (rf_fit rfModel
              \<lparr>columns = columns wine @ [''features''],
               rows = map (\<lambda>r. map Plain r @ [Features (map (\<lambda>c. the (to_double c)) (drop 1 r))])
                        (rows train)\<rparr>,
            evaluate (rf_transform
              (rf_fit rfModel
                 \<lparr>columns = columns wine @ [''features''],
                  rows = map (\<lambda>r. map Plain r @ [Features (map (\<lambda>c. the (to_double c)) (drop 1 r))])
                           (rows train)\<rparr>)
              \<lparr>columns = columns wine @ [''features''],
               rows = map (\<lambda>r. map Plain r @ [Features (map (\<lambda>c. the (to_double c)) (drop 1 r))])
                        (rows train)\<rparr>),
            evaluate (rf_transform
              (rf_fit rfModel
                 \<lparr>columns = columns wine @ [''features''],
                  rows = map (\<lambda>r. map Plain r @ [Features (map (\<lambda>c. the (to_double c)) (drop 1 r))])
                           (rows train)\<rparr>)
              \<lparr>columns = columns wine @ [''features''],
               rows = map (\<lambda>r. map Plain r @ [Features (map (\<lambda>c. the (to_double c)) (drop 1 r))])
                        (rows test)\<rparr>)) \<and>
     (\<forall>wine' test'. columns wine' = columns wine \<and> train_test fl draws wine' = Inr (train, test') \<longrightarrow>
        pipeModel rf_fit fl draws wine' = pipeModel rf_fit fl draws wine)"
proof -
  let ?drawn = "zip (sort_rows cell_le (rows wine)) (map (draws 23) [0..<length (rows wine)])"
  let ?train = "wine\<lparr>rows := map fst (filter (\<lambda>(r, x). x < fl (7 / 10)) ?drawn)\<rparr>"
  let ?test = "wine\<lparr>rows := map fst (filter (\<lambda>(r, x). \<not> x < fl (7 / 10)) ?drawn)\<rparr>"
  let ?asm = "\<lambda>d :: cell frame. \<lparr>columns = columns wine @ [''features''],
               rows = map (\<lambda>r. map Plain r @ [Features (map (\<lambda>c. the (to_double c)) (drop 1 r))])
                        (rows d)\<rparr>"
  have split: "train_test fl draws wine = Inr (?train, ?test)"
    using assms(1-5) by (rule train_test_rows [of fl draws wine])
  have cols: "columns ?train = columns wine" "columns ?test = columns wine"
    by simp_all
  have rws: "rows ?train = map fst (filter (\<lambda>(r, x). x < fl (7 / 10)) ?drawn)"
    "rows ?test = map fst (filter (\<lambda>(r, x). \<not> x < fl (7 / 10)) ?drawn)"
    by simp_all
  have all: "mset (rows ?train) + mset (rows ?test) = mset (rows wine)"
    using mset_split_by_draw [of "map (draws 23) [0..<length (rows wine)]"
        "sort_rows cell_le (rows wine)" "\<lambda>x. x < fl (7 / 10)"]
    by (simp add: length_sort_rows mset_sort_rows)
  have disj: "distinct (rows wine) \<longrightarrow> set (rows ?train) \<inter> set (rows ?test) = {}"
    using disjoint_split_by_draw [of "sort_rows cell_le (rows wine)" "\<lambda>x. x < fl (7 / 10)"
        "map (draws 23) [0..<length (rows wine)]"]
    by (simp add: distinct_sort_rows)
  have sub: "set (rows ?train) \<subseteq> set (rows wine)" "set (rows ?test) \<subseteq> set (rows wine)"
    using set_split_subset [of _ "sort_rows cell_le (rows wine)" "map (draws 23) [0..<length (rows wine)]"]
    by (simp_all add: set_sort_rows)
  have asm_train: "assembler_transform (assembler wine) ?train = Inr (?asm ?train)"
  proof -
    have "\<forall>r \<in> set (rows ?train). length r = 14" "\<not> (\<exists>r \<in> set (rows ?train). Null \<in> set (drop 1 r))"
      using sub(1) assms(7) by blast+
    with assembler_transform_wine [OF assms(6) cols(1)] show ?thesis
      by (simp only: if_False cols(1))
  qed
  have asm_test: "assembler_transform (assembler wine) ?test = Inr (?asm ?test)"
  proof -
    have "\<forall>r \<in> set (rows ?test). length r = 14" "\<not> (\<exists>r \<in> set (rows ?test). Null \<in> set (drop 1 r))"
      using sub(2) assms(7) by blast+
    with assembler_transform_wine [OF assms(6) cols(2)] show ?thesis
      by (simp only: if_False cols(2))
  qed
  have model: "pipeModel rf_fit fl draws wine = Inr (rf_fit rfModel (?asm ?train))"
    unfolding pipeModel_def split by (simp only: pipe_fit_def asm_train sum.case prod.case)
  have scores: "fit_and_score rf_fit rf_transform evaluate fl draws wine =
       Inr (rf_fit rfModel (?asm ?train),
            evaluate (rf_transform (rf_fit rfModel (?asm ?train)) (?asm ?train)),
            evaluate (rf_transform (rf_fit rfModel (?asm ?train)) (?asm ?test)))"
    unfolding fit_and_score_def split
    by (simp only: pipe_fit_def pipe_transform_def asm_train asm_test sum.case prod.case)
  have same: "\<forall>wine' test'. columns wine' = columns wine \<and> train_test fl draws wine' = Inr (?train, test') \<longrightarrow>
        pipeModel rf_fit fl draws wine' = pipeModel rf_fit fl draws wine"
    by (simp add: pipeModel_def split assembler_def)
  show ?thesis
    apply (rule exI [of _ ?train])
    apply (rule exI [of _ ?test])
    apply (intro conjI)
             apply (rule split)
            apply (rule cols(1))
           apply (rule cols(2))
          apply (rule rws(1))
         apply (rule rws(2))
        apply (rule all)
       apply (rule disj)
      apply (rule model)
     apply (rule scores)
    apply (rule same)
    done
qed

theorem split_then_fit_on_train_witness:
  "mono (\<lambda>x :: rat. x) \<and>
   (\<forall>j. (0::rat) \<le> (\<lambda>seed j. if even j then 1 / 10 else 9 / 10) (23::int) (j::nat) \<and>
        (\<lambda>seed j. if even j then 1 / 10 else 9 / 10) (23::int) j < (1::rat)) \<and>
   columns (rename_od280 wine_head) = colNames[12 := ''od280''] \<and>
   list_all (\<lambda>r. length r = 14 \<and> Null \<notin> set (drop 1 r)) (rows (rename_od280 wine_head)) \<and>
   (\<exists>train test. train_test (\<lambda>x. x) (\<lambda>seed j. if even j then 1 / 10 else 9 / 10) (rename_od280 wine_head)
        = Inr (train, test) \<and>
      rows train = [rows wine_head ! 1] \<and> rows test = [rows wine_head ! 0] \<and>
      pipeModel (\<lambda>rf assembled. rows assembled) (\<lambda>x. x) (\<lambda>seed j. if even j then 1 / 10 else 9 / 10)
        (rename_od280 wine_head)
        = Inr [map Plain (rows wine_head ! 1) @
                 [Features [132 / 10, 178 / 100, 214 / 100, 112 / 10, 100, 265 / 100, 276 / 100,
                    26 / 100, 128 / 100, 438 / 100, 105 / 100, 34 / 10, 1050]]])"
proof -
  let ?d = "\<lambda>(seed::int) (j::nat). if even j then 1 / 10 else 9 / 10 :: rat"
  let ?fl = "\<lambda>x :: rat. x"
  have m: "mono ?fl" by (simp add: mono_def)
  have z: "?fl 0 = 0" by simp
  have i: "\<forall>x. ?fl (?fl x) = ?fl x" by simp
  have s: "?fl (?fl (7 / 10) + ?fl (3 / 10)) = 1" by simp
  have d: "\<forall>j. 0 \<le> ?d 23 j \<and> ?d 23 j < 1" by simp
  have c: "columns (rename_od280 wine_head) = colNames[12 := ''od280'']"
    by (simp add: rename_od280_def withColumnRenamed_def wine_head_def colNames_def)
  have r: "rows (rename_od280 wine_head) = rows wine_head"
    by (simp add: rename_od280_def withColumnRenamed_def)
  have w: "\<forall>r \<in> set (rows (rename_od280 wine_head)). length r = 14 \<and> Null \<notin> set (drop 1 r)"
    unfolding r by (simp add: wine_head_def)
  have up: "[0..<2] = [0, Suc 0]"
    by (simp add: upt_rec [of _ "numeral n" for n] upt_rec [of _ "Suc n" for n])
  have sorted: "sort_rows cell_le (rows wine_head) = [rows wine_head ! 1, rows wine_head ! 0]"
    by (simp add: wine_head_def sort_rows_def)
  have two: "length (rows wine_head) = 2"
    by (simp add: wine_head_def)
  note inst = split_then_fit_on_train [of ?fl ?d "rename_od280 wine_head" "\<lambda>rf assembled. rows assembled"
      "\<lambda>m assembled. assembled" "\<lambda>results. 1", OF m z i s d c w]
  from inst obtain train test where full:
    "train_test ?fl ?d (rename_od280 wine_head) = Inr (train, test) \<and>
     columns train = columns (rename_od280 wine_head) \<and>
     columns test = columns (rename_od280 wine_head) \<and>
     rows train = map fst (filter (\<lambda>(r, x). x < 7 / 10)
        (zip (sort_rows cell_le (rows (rename_od280 wine_head)))
           (map (?d 23) [0..<length (rows (rename_od280 wine_head))]))) \<and>
     rows test = map fst (filter (\<lambda>(r, x). \<not> x < 7 / 10)
        (zip (sort_rows cell_le (rows (rename_od280 wine_head)))
           (map (?d 23) [0..<length (rows (rename_od280 wine_head))]))) \<and>
     mset (rows train) + mset (rows test) = mset (rows (rename_od280 wine_head)) \<and>
     (distinct (rows (rename_od280 wine_head)) \<longrightarrow> set (rows train) \<inter> set (rows test) = {}) \<and>
     pipeModel (\<lambda>rf assembled. rows assembled) ?fl ?d (rename_od280 wine_head)
        = Inr (rows \<lparr>columns = columns (rename_od280 wine_head) @ [''features''],
                 rows = map (\<lambda>r. map Plain r @ [Features (map (\<lambda>c. the (to_double c)) (drop 1 r))])
                 (rows train)\<rparr>)"
    by (elim exE conjE) (rule that, intro conjI, assumption+)
  note tt = full [THEN conjunct1]
    full [THEN conjunct2, THEN conjunct2, THEN conjunct2, THEN conjunct1]
    full [THEN conjunct2, THEN conjunct2, THEN conjunct2, THEN conjunct2, THEN conjunct1]
    full [THEN conjunct2, THEN conjunct2, THEN conjunct2, THEN conjunct2, THEN conjunct2,
      THEN conjunct2, THEN conjunct2]
  from tt(2) have tr: "rows train = [rows wine_head ! 1]"
    unfolding r two up sorted by simp
  from tt(3) have te: "rows test = [rows wine_head ! 0]"
    unfolding r two up sorted by simp
  have "map (\<lambda>r. map Plain r @ [Features (map (\<lambda>c. the (to_double c)) (drop 1 r))]) [rows wine_head ! 1]
      = [map Plain (rows wine_head ! 1) @
                 [Features [132 / 10, 178 / 100, 214 / 100, 112 / 10, 100, 265 / 100, 276 / 100,
                    26 / 100, 128 / 100, 438 / 100, 105 / 100, 34 / 10, 1050]]]"
    by (simp add: wine_head_def)
  with tt(4) tr have "pipeModel (\<lambda>rf assembled. rows assembled) ?fl ?d (rename_od280 wine_head)
        = Inr [map Plain (rows wine_head ! 1) @
                 [Features [132 / 10, 178 / 100, 214 / 100, 112 / 10, 100, 265 / 100, 276 / 100,
                    26 / 100, 128 / 100, 438 / 100, 105 / 100, 34 / 10, 1050]]]"
    by simp
  with tt(1) tr te have "\<exists>train test. train_test ?fl ?d (rename_od280 wine_head) = Inr (train, test) \<and>
      rows train = [rows wine_head ! 1] \<and> rows test = [rows wine_head ! 0] \<and>
      pipeModel (\<lambda>rf assembled. rows assembled) ?fl ?d (rename_od280 wine_head)
        = Inr [map Plain (rows wine_head ! 1) @
                 [Features [132 / 10, 178 / 100, 214 / 100, 112 / 10, 100, 265 / 100, 276 / 100,
                    26 / 100, 128 / 100, 438 / 100, 105 / 100, 34 / 10, 1050]]]"
    by blast
  note ex = this
  have la: "list_all (\<lambda>r. length r = 14 \<and> Null \<notin> set (drop 1 r)) (rows (rename_od280 wine_head))"
    using w by (simp only: list_all_iff)
  show ?thesis
    apply (intro conjI)
        apply (rule m)
       apply (rule d)
      apply (rule c)
     apply (rule la)
    apply (rule ex)
    done
qed

text \<open>
  Claim C6. The grid holds exactly the 9 combinations of \<^verbatim>\<open>numTrees\<close> in 50, 100, 150
  with \<^verbatim>\<open>maxDepth\<close> in 5, 10, 15. Cross-validation makes 5 folds of the data with its
  random column: fold \<open>i\<close> validates on the rows whose number lies in
  \<open>[i * h, (i + 1) * h)\<close> and trains on all the other rows, so the two parts of a fold
  together are the data, and the validation parts of the 5 folds together are the data,
  each row in one of them. It returns 9 average metrics, the one of a combination being the
  mean over the 5 folds of its score on the fold's training and validation parts.
\<close>

theorem grid_search_nine_by_five:
  "params = [[(NumTrees, 50), (MaxDepth, 5)], [(NumTrees, 50), (MaxDepth, 10)],
             [(NumTrees, 50), (MaxDepth, 15)], [(NumTrees, 100), (MaxDepth, 5)],
             [(NumTrees, 100), (MaxDepth, 10)], [(NumTrees, 100), (MaxDepth, 15)],
             [(NumTrees, 150), (MaxDepth, 5)], [(NumTrees, 150), (MaxDepth, 10)],
             [(NumTrees, 150), (MaxDepth, 15)]] \<and>
   length params = 9 \<and> distinct params \<and>
   set params = (\<lambda>(n, d). [(NumTrees, n), (MaxDepth, d)]) ` ({50, 100, 150} \<times> {5, 10, 15}) \<and>
   numFolds = 5 \<and>
   length (kFold fl uid rand numFolds train) = 5 \<and>
   (\<forall>i < 5. kFold fl uid rand numFolds train ! i =
      (\<lparr>columns = columns train @ [uid @ ''_rand''],
        rows = map (\<lambda>(r, x). r @ [DoubleCell x])
                 (filter (\<lambda>(r, x). \<not> (fl (of_nat i * fl (1 / 5)) \<le> x \<and> x < fl (of_nat (i + 1) * fl (1 / 5))))
                    (zip (rows train) (map rand [0..<length (rows train)])))\<rparr>,
       \<lparr>columns = columns train @ [uid @ ''_rand''],
        rows = map (\<lambda>(r, x). r @ [DoubleCell x])
                 (filter (\<lambda>(r, x). fl (of_nat i * fl (1 / 5)) \<le> x \<and> x < fl (of_nat (i + 1) * fl (1 / 5)))
                    (zip (rows train) (map rand [0..<length (rows train)])))\<rparr>)) \<and>
   (\<forall>i < 5. mset (rows (fst (kFold fl uid rand numFolds train ! i)))
            + mset (rows (snd (kFold fl uid rand numFolds train ! i)))
          = mset (map (\<lambda>(r, x). r @ [DoubleCell x])
                    (zip (rows train) (map rand [0..<length (rows train)])))) \<and>
   (mono fl \<and> fl 0 = 0 \<and> fl (5 * fl (1 / 5)) = 1 \<and> (\<forall>j. 0 \<le> rand j \<and> rand j < 1) \<longrightarrow>
      sum_list (map (\<lambda>(tr, va). mset (rows va)) (kFold fl uid rand numFolds train))
        = mset (map (\<lambda>(r, x). r @ [DoubleCell x])
                  (zip (rows train) (map rand [0..<length (rows train)])))) \<and>
   length (avgMetrics score fl uid rand train) = 9 \<and>
   (\<forall>j < 9. avgMetrics score fl uid rand train ! j
      = sum_list (map (\<lambda>(tr, va). score (params ! j) tr va) (kFold fl uid rand numFolds train)) / 5)"
proof -
  have len: "length params = 9"
    by (simp add: params_value)
  have dist: "distinct params"
    by (simp add: params_value)
  have st: "set params = (\<lambda>(n, d). [(NumTrees, n), (MaxDepth, d)]) ` ({50, 100, 150} \<times> {5, 10, 15})"
    by (simp add: params_value)
  have five: "numFolds = 5"
    by (simp add: numFolds_def)
  have of5: "(of_nat numFolds :: rat) = 5"
    by (simp add: numFolds_def)
  have folds: "length (kFold fl uid rand numFolds train) = 5"
    by (simp add: length_kFold numFolds_def)
  have nth: "\<forall>i < 5. kFold fl uid rand numFolds train ! i =
      (\<lparr>columns = columns train @ [uid @ ''_rand''],
        rows = map (\<lambda>(r, x). r @ [DoubleCell x])
                 (filter (\<lambda>(r, x). \<not> (fl (of_nat i * fl (1 / 5)) \<le> x \<and> x < fl (of_nat (i + 1) * fl (1 / 5))))
                    (zip (rows train) (map rand [0..<length (rows train)])))\<rparr>,
       \<lparr>columns = columns train @ [uid @ ''_rand''],
        rows = map (\<lambda>(r, x). r @ [DoubleCell x])
                 (filter (\<lambda>(r, x). fl (of_nat i * fl (1 / 5)) \<le> x \<and> x < fl (of_nat (i + 1) * fl (1 / 5)))
                    (zip (rows train) (map rand [0..<length (rows train)])))\<rparr>)"
  proof (intro allI impI)
    fix i :: nat
    assume "i < 5"
    then have "i < numFolds" by (simp add: numFolds_def)
    from kFold_nth [OF this, of fl uid rand train] show "kFold fl uid rand numFolds train ! i =
      (\<lparr>columns = columns train @ [uid @ ''_rand''],
        rows = map (\<lambda>(r, x). r @ [DoubleCell x])
                 (filter (\<lambda>(r, x). \<not> (fl (of_nat i * fl (1 / 5)) \<le> x \<and> x < fl (of_nat (i + 1) * fl (1 / 5))))
                    (zip (rows train) (map rand [0..<length (rows train)])))\<rparr>,
       \<lparr>columns = columns train @ [uid @ ''_rand''],
        rows = map (\<lambda>(r, x). r @ [DoubleCell x])
                 (filter (\<lambda>(r, x). fl (of_nat i * fl (1 / 5)) \<le> x \<and> x < fl (of_nat (i + 1) * fl (1 / 5)))
                    (zip (rows train) (map rand [0..<length (rows train)])))\<rparr>)"
      by (simp only: of5)
  qed
  have both: "\<forall>i < 5. mset (rows (fst (kFold fl uid rand numFolds train ! i)))
            + mset (rows (snd (kFold fl uid rand numFolds train ! i)))
          = mset (map (\<lambda>(r, x). r @ [DoubleCell x])
                    (zip (rows train) (map rand [0..<length (rows train)])))"
  proof (intro allI impI)
    fix i :: nat
    assume i: "i < 5"
    show "mset (rows (fst (kFold fl uid rand numFolds train ! i)))
            + mset (rows (snd (kFold fl uid rand numFolds train ! i)))
          = mset (map (\<lambda>(r, x). r @ [DoubleCell x])
                    (zip (rows train) (map rand [0..<length (rows train)])))"
      unfolding nth [rule_format, OF i] fst_conv snd_conv frame.simps
      by (rule mset_filter_complement_pair)
  qed
  have parts: "mono fl \<and> fl 0 = 0 \<and> fl (5 * fl (1 / 5)) = 1 \<and> (\<forall>j. 0 \<le> rand j \<and> rand j < 1) \<longrightarrow>
      sum_list (map (\<lambda>(tr, va). mset (rows va)) (kFold fl uid rand numFolds train))
        = mset (map (\<lambda>(r, x). r @ [DoubleCell x])
                  (zip (rows train) (map rand [0..<length (rows train)])))"
  proof
    assume h: "mono fl \<and> fl 0 = 0 \<and> fl (5 * fl (1 / 5)) = 1 \<and> (\<forall>j. 0 \<le> rand j \<and> rand j < 1)"
    then have one: "fl (of_nat numFolds * fl (1 / of_nat numFolds)) = 1"
      by (simp only: of5)
    from h have m: "mono fl" and z: "fl 0 = 0" and r: "\<forall>j. 0 \<le> rand j \<and> rand j < 1"
      by blast+
    show "sum_list (map (\<lambda>(tr, va). mset (rows va)) (kFold fl uid rand numFolds train))
        = mset (map (\<lambda>(r, x). r @ [DoubleCell x])
                  (zip (rows train) (map rand [0..<length (rows train)])))"
      by (rule kFold_validation_parts [OF m z one r])
  qed
  have lm: "length (avgMetrics score fl uid rand train) = 9"
    by (simp add: avgMetrics_def length_cv_fit len)
  have avg: "\<forall>j < 9. avgMetrics score fl uid rand train ! j
      = sum_list (map (\<lambda>(tr, va). score (params ! j) tr va) (kFold fl uid rand numFolds train)) / 5"
  proof (intro allI impI)
    fix j :: nat
    assume "j < 9"
    then have "j < length params" by (simp only: len)
    from cv_fit_nth [OF this, of score fl uid rand numFolds train]
    show "avgMetrics score fl uid rand train ! j
      = sum_list (map (\<lambda>(tr, va). score (params ! j) tr va) (kFold fl uid rand numFolds train)) / 5"
      by (simp only: avgMetrics_def of5)
  qed
  show ?thesis
    apply (intro conjI)
              apply (rule params_value)
             apply (rule len)
            apply (rule dist)
           apply (rule st)
          apply (rule five)
         apply (rule folds)
        apply (rule nth)
       apply (rule both)
      apply (rule parts)
     apply (rule lm)
    apply (rule avg)
    done
qed

theorem grid_search_nine_by_five_witness:
  "mono (\<lambda>x :: rat. x) \<and>
   (\<forall>j :: nat. (0::rat) \<le> (if even j then 1 / 10 else 9 / 10) \<and> (if even j then 1 / 10 else 9 / 10) < (1::rat)) \<and>
   length (avgMetrics (\<lambda>m tr va. of_nat (df_count va)) (\<lambda>x. x) ''cv''
             (\<lambda>j. if even j then 1 / 10 else 9 / 10) wine_head) = 9 \<and>
   avgMetrics (\<lambda>m tr va. of_nat (df_count va)) (\<lambda>x. x) ''cv''
     (\<lambda>j. if even j then 1 / 10 else 9 / 10) wine_head ! 0 = 2 / 5 \<and>
   rows (snd (kFold (\<lambda>x. x) ''cv'' (\<lambda>j. if even j then 1 / 10 else 9 / 10) numFolds wine_head ! 0))
     = [rows wine_head ! 0 @ [DoubleCell (1 / 10)]] \<and>
   rows (fst (kFold (\<lambda>x. x) ''cv'' (\<lambda>j. if even j then 1 / 10 else 9 / 10) numFolds wine_head ! 0))
     = [rows wine_head ! 1 @ [DoubleCell (9 / 10)]] \<and>
   sum_list (map (\<lambda>(tr, va). mset (rows va))
      (kFold (\<lambda>x. x) ''cv'' (\<lambda>j. if even j then 1 / 10 else 9 / 10) numFolds wine_head))
     = mset [rows wine_head ! 0 @ [DoubleCell (1 / 10)], rows wine_head ! 1 @ [DoubleCell (9 / 10)]]"
proof -
  let ?rand = "\<lambda>j::nat. if even j then 1 / 10 else 9 / 10 :: rat"
  let ?fl = "\<lambda>x :: rat. x"
  let ?score = "\<lambda>(m :: (param \<times> int) list) (tr :: cell frame) (va :: cell frame). of_nat (df_count va) :: rat"
  have m: "mono ?fl" by (simp add: mono_def)
  have r: "\<forall>j :: nat. (0::rat) \<le> (if even j then 1 / 10 else 9 / 10) \<and> (if even j then 1 / 10 else 9 / 10) < (1::rat)"
    by simp
  have hyp: "mono ?fl \<and> ?fl 0 = 0 \<and> ?fl (5 * ?fl (1 / 5)) = 1 \<and> (\<forall>j. 0 \<le> ?rand j \<and> ?rand j < 1)"
    using m by simp
  have up: "[0..<2] = [0, Suc 0]"
    by (simp add: upt_rec [of _ "numeral n" for n] upt_rec [of _ "Suc n" for n])
  obtain a b where ab: "rows wine_head = [a, b]"
    by (simp add: wine_head_def)
  have zs: "zip (rows wine_head) (map ?rand [0..<length (rows wine_head)]) = [(a, 1 / 10), (b, 9 / 10)]"
    by (simp add: ab up)
  note inst = grid_search_nine_by_five [of ?fl "''cv''" ?rand wine_head ?score]
  note c6 = inst [THEN conjunct2, THEN conjunct2, THEN conjunct2, THEN conjunct2, THEN conjunct2]
  note nth = c6 [THEN conjunct2, THEN conjunct1]
  note parts = c6 [THEN conjunct2, THEN conjunct2, THEN conjunct2, THEN conjunct1]
  note lenm = c6 [THEN conjunct2, THEN conjunct2, THEN conjunct2, THEN conjunct2, THEN conjunct1]
  note avg = c6 [THEN conjunct2, THEN conjunct2, THEN conjunct2, THEN conjunct2, THEN conjunct2]
  have f0: "kFold ?fl ''cv'' ?rand numFolds wine_head ! 0 =
      (\<lparr>columns = columns wine_head @ [''cv'' @ ''_rand''], rows = [b @ [DoubleCell (9 / 10)]]\<rparr>,
       \<lparr>columns = columns wine_head @ [''cv'' @ ''_rand''], rows = [a @ [DoubleCell (1 / 10)]]\<rparr>)"
    using nth [rule_format, of 0] unfolding zs by simp
  have v: "rows (snd (kFold ?fl ''cv'' ?rand numFolds wine_head ! 0)) = [rows wine_head ! 0 @ [DoubleCell (1 / 10)]]"
    and t: "rows (fst (kFold ?fl ''cv'' ?rand numFolds wine_head ! 0)) = [rows wine_head ! 1 @ [DoubleCell (9 / 10)]]"
    unfolding f0 by (simp_all add: ab)
  have s: "sum_list (map (\<lambda>(tr, va). mset (rows va)) (kFold ?fl ''cv'' ?rand numFolds wine_head))
     = mset [rows wine_head ! 0 @ [DoubleCell (1 / 10)], rows wine_head ! 1 @ [DoubleCell (9 / 10)]]"
    using parts [rule_format, OF hyp] unfolding zs by (simp add: ab)
  have counts: "map (\<lambda>(tr, va). ?score (params ! 0) tr va) (kFold ?fl ''cv'' ?rand numFolds wine_head) = [1, 0, 0, 0, 1]"
    by (simp add: kFold_def numFolds_def Let_def ab up df_count_def
        upt_rec [of _ "numeral n" for n] upt_rec [of _ "Suc n" for n])
  have a0: "avgMetrics ?score ?fl ''cv'' ?rand wine_head ! 0 = 2 / 5"
    using avg [rule_format, of 0] unfolding counts by simp
  show ?thesis
    apply (intro conjI)
          apply (rule m)
         apply (rule r)
        apply (rule lenm)
       apply (rule a0)
      apply (rule v)
     apply (rule t)
    apply (rule s)
    done
qed


end
